theory Spec2Isabelle
  imports Complex_Main "HOL-Library.Word" "HOL-Library.Sublist" "HOL-Library.Monad_Syntax"
begin

text \<open>
  A shallow embedding of the bytebeat player extension (the file under \<open>src/unnamed\<close>
  whose first comment names it \<open>yoog.js\<close>): the waveform quantizer, the WAV encoder,
  the worklet processor, the extension object with its ScriptProcessor fallback, and the
  safety check of formula texts.

  Conventions of the model.
  \<^item> A JavaScript number is a \<open>real\<close> where the code computes with fractions (sample
    values, the logical clock, volume) and an \<open>int\<close> where it holds an integer (the raw
    result of a formula, a sample rate written to the WAV header). The arithmetic of the
    logical clock (the increment \<open>logicalS / sr\<close>, the addition \<open>t += increment\<close>,
    the argument \<open>t / logicalS\<close>) and the scaling product of the WAV encoder round to
    the nearest IEEE double, ties to even, with \<open>fl\<close> below. The product of the
    quantizer by the gain is kept exact, and so are the elements of a \<open>Float32Array\<close>;
    \<open>NaN\<close> and the infinities are outside the model.
  \<^item> The bitwise operators convert their operands to 32-bit two's complement first; they
    are modelled on \<open>32 word\<close> and read back with \<open>sint\<close>.
  \<^item> A call that can throw returns an \<open>option\<close>; \<open>None\<close> is the exception.
  \<^item> Mutation of \<open>this\<close> is explicit state passing on records that carry the fields of
    the source objects.
\<close>

unbundle bit_operations_syntax

section \<open>Numbers\<close>

text \<open>\<open>a | b\<close> and \<open>a & b\<close> of JavaScript on integer-valued numbers.\<close>

definition bitor32 :: "int \<Rightarrow> int \<Rightarrow> int" where
  "bitor32 a b = sint ((word_of_int a :: 32 word) OR word_of_int b)"

definition bitand32 :: "int \<Rightarrow> int \<Rightarrow> int" where
  "bitand32 a b = sint ((word_of_int a :: 32 word) AND word_of_int b)"

text \<open>\<open>Math.round\<close> rounds to the nearest integer, a tie towards plus infinity.\<close>

definition Math_round :: "real \<Rightarrow> int" where
  "Math_round x = \<lfloor>x + 1 / 2\<rfloor>"

section \<open>Double precision\<close>

text \<open>
  \<open>round_ties_even\<close> rounds a real to the nearest integer and a tie to the even
  neighbour. \<open>binade x\<close> is the exponent of the binade of \<open>x\<close>: the largest \<open>e\<close>
  from \<open>- 1022\<close> to \<open>1023\<close> with \<open>2 powi e \<le> \<bar>x\<bar>\<close>, found by searching from
  \<open>1023\<close> downwards, and \<open>- 1022\<close> for the subnormal numbers and 0. A double in that
  binade is a multiple of \<open>ulp x = 2 powi (binade x - 52)\<close>, so that \<open>fl x\<close>, the double
  nearest to \<open>x\<close>, is the nearest multiple. \<open>fadd\<close>, \<open>fmul\<close> and \<open>fdiv\<close> are
  \<open>+\<close>, \<open>*\<close> and \<open>/\<close> of JavaScript on finite numbers: the exact result, rounded once.
  The overflow to an infinity, at \<open>2 ^ 1024 - 2 ^ 970\<close> and above, is not modelled; the
  clock, its increment and the encoder's products stay far below. No divisor is 0: the
  sample rate of the audio context is positive, and the logical rate is at least 100 on
  the worklet (the range of its parameter, line 25) and at least 1 on the ScriptProcessor
  (line 443).
\<close>

definition round_ties_even :: "real \<Rightarrow> int" where
  "round_ties_even x =
     (let n = \<lfloor>x\<rfloor>; r = x - of_int n
      in if r < 1 / 2 then n
         else if 1 / 2 < r then n + 1
         else if even n then n else n + 1)"

primrec binade_search :: "nat \<Rightarrow> real \<Rightarrow> int" where
  "binade_search 0 x = - 1022"
| "binade_search (Suc n) x =
     (if 2 powi (int n - 1021) \<le> x then int n - 1021 else binade_search n x)"

definition binade :: "real \<Rightarrow> int" where
  "binade x = binade_search 2045 \<bar>x\<bar>"

definition ulp :: "real \<Rightarrow> real" where
  "ulp x = 2 powi (binade x - 52)"

definition fl :: "real \<Rightarrow> real" where
  "fl x = of_int (round_ties_even (x / ulp x)) * ulp x"

definition fadd :: "real \<Rightarrow> real \<Rightarrow> real" where
  "fadd x y = fl (x + y)"


definition fdiv :: "real \<Rightarrow> real \<Rightarrow> real" where
  "fdiv x y = fl (x / y)"


section \<open>The waveform quantizer\<close>

text \<open>
  Lines 114--116 of the worklet loop, with \<open>raw\<close> and \<open>vol\<close> as inputs:
  \<^verbatim>\<open>const v8 = (raw | 0) & 255; let sample = (v8 / 128) - 1; sample = sample * vol;\<close>
  The ScriptProcessor loop (lines 463--465) runs the same three steps with
  \<^verbatim>\<open>(self.volume || 1.0)\<close> in the place of \<open>vol\<close>.
\<close>

definition quantize :: "int \<Rightarrow> real \<Rightarrow> real" where
  "quantize raw vol =
     (let v8 = bitand32 (bitor32 raw 0) 255;
          sample = real_of_int v8 / 128 - 1
      in sample * vol)"

section \<open>The WAV encoder\<close>

text \<open>
  The \<open>DataView\<close> over the freshly allocated \<open>ArrayBuffer\<close> is a list of bytes. The
  setters are the little-endian ones the encoder calls (\<open>littleEndian = true\<close>); a write
  that does not fit into the buffer throws a \<open>RangeError\<close>, here \<open>None\<close>. The value
  to store is taken modulo the width of the field, as \<open>ToUint8\<close>, \<open>ToUint16\<close>,
  \<open>ToInt16\<close> and \<open>ToUint32\<close> do.
\<close>

type_synonym byte = "8 word"







definition getUint32 :: "nat \<Rightarrow> byte list \<Rightarrow> int option" where
  "getUint32 byteOffset view =
     (if byteOffset + 4 \<le> length view
      then Some (uint (view ! byteOffset) + 256 * uint (view ! (byteOffset + 1))
                 + 65536 * uint (view ! (byteOffset + 2))
                 + 16777216 * uint (view ! (byteOffset + 3)))
      else None)"





section \<open>The formula engine\<close>

text \<open>
  \<^verbatim>\<open>new Function('t','s','T','return (' + formulaText + ')|0;')\<close> hands a function body
  to the JavaScript engine. The engine is not part of the repository, so it is a parameter
  of the model: it maps a body to \<open>None\<close> (the constructor throws a \<open>SyntaxError\<close>)
  or to the compiled function. A compiled function takes \<open>t\<close> (always an integer here:
  the loops pass \<open>Math.floor\<close> of the clock), \<open>s\<close> and \<open>T\<close>, and either throws
  (\<open>None\<close>) or returns the 32-bit integer that \<open>|0\<close> produces.
\<close>

type_synonym compiled_fn = "int \<Rightarrow> real \<Rightarrow> real \<Rightarrow> int option"

type_synonym engine = "string \<Rightarrow> compiled_fn option"

definition ERROR_FALLBACK_FORMULA :: string where
  "ERROR_FALLBACK_FORMULA = ''t*(t^t+(t>>15|1)^(t-1280^t)>>10)''"

definition new_Function :: "engine \<Rightarrow> string \<Rightarrow> compiled_fn option" where
  "new_Function eng formulaText = eng (''return ('' @ formulaText @ '')|0;'')"

section \<open>The worklet processor\<close>

text \<open>
  \<open>BytebeatProcessor\<close>, lines 21--128. \<open>control_message\<close> are the messages the
  extension posts to a node, \<open>port_message\<close> the ones the processor posts back. The text
  of an error message is the fixed prefix of the source; the engine's own message, which
  the source appends, is left out. \<open>w_posted\<close> collects what \<open>this.port.postMessage\<close>
  sent, oldest first. The fields of the processor carry the prefix \<open>w_\<close>.
\<close>

datatype port_message = Msg_error string | Msg_recordChunk "real list"

datatype control_message =
    Msg_setFormula string
  | Msg_record bool
  | Msg_setChunkSize nat
  | Msg_resetTime
  | Msg_setVolume real
  | Msg_setLogicalS real

record worklet =
  w_t :: real
  w_compiled :: "compiled_fn option"
  w_recording :: bool
  w_recordBuffer :: "real list"
  w_recordChunkSize :: nat
  w_posted :: "port_message list"

text \<open>
  \<open>_flushRecord\<close> and \<open>_setRecording\<close>, lines 48--63. Both branches of the
  \<open>try\<close> in \<open>_flushRecord\<close> post the same samples.
\<close>

definition flushRecord :: "worklet \<Rightarrow> worklet" where
  "flushRecord w =
     (if length (w_recordBuffer w) > 0
      then w\<lparr>w_posted := w_posted w @ [Msg_recordChunk (w_recordBuffer w)],
             w_recordBuffer := []\<rparr>
      else w)"

definition setRecording :: "bool \<Rightarrow> worklet \<Rightarrow> worklet" where
  "setRecording on w =
     (let w1 = w\<lparr>w_recording := on\<rparr>
      in if \<not> w_recording w1 then flushRecord w1 else w1)"

text \<open>
  The \<open>catch\<close> block that the processor runs after a failed compile (lines 71--77) and
  after a failed evaluation (lines 101--107): compile the fallback formula and post the
  first message, or drop the compiled function and post the second.
\<close>

definition w_catch_fallback :: "engine \<Rightarrow> string \<Rightarrow> string \<Rightarrow> worklet \<Rightarrow> worklet" where
  "w_catch_fallback eng switched failed w =
     (case new_Function eng ERROR_FALLBACK_FORMULA of
        Some g \<Rightarrow> w\<lparr>w_compiled := Some g, w_posted := w_posted w @ [Msg_error switched]\<rparr>
      | None \<Rightarrow> w\<lparr>w_compiled := None, w_posted := w_posted w @ [Msg_error failed]\<rparr>)"

text \<open>
  \<open>_setFormula\<close>, lines 65--79: compile, then call the new function once on
  \<open>(0, 8000, 0)\<close>; an exception of either step enters the \<open>catch\<close> block.
\<close>

definition setFormula :: "engine \<Rightarrow> string \<Rightarrow> worklet \<Rightarrow> worklet" where
  "setFormula eng formulaText w =
     (case new_Function eng formulaText of
        Some f \<Rightarrow>
          (case f 0 8000 0 of
             Some r \<Rightarrow> w\<lparr>w_compiled := Some f\<rparr>
           | None \<Rightarrow>
               w_catch_fallback eng ''Compile error; switched to fallback formula: ''
                 ''Compile failed and fallback failed: '' w)
      | None \<Rightarrow>
          w_catch_fallback eng ''Compile error; switched to fallback formula: ''
            ''Compile failed and fallback failed: '' w)"

text \<open>
  \<open>port.onmessage\<close>, lines 36--43. \<open>Number(d.size) || this.recordChunkSize\<close> keeps the
  old size for a size of 0.
\<close>

definition onmessage :: "engine \<Rightarrow> control_message \<Rightarrow> worklet \<Rightarrow> worklet" where
  "onmessage eng d w =
     (case d of
        Msg_setFormula formulaText \<Rightarrow> setFormula eng formulaText w
      | Msg_record on \<Rightarrow> setRecording on w
      | Msg_setChunkSize sz \<Rightarrow>
          w\<lparr>w_recordChunkSize :=
               max 128 (min 65536 (if sz = 0 then w_recordChunkSize w else sz))\<rparr>
      | Msg_resetTime \<Rightarrow> w\<lparr>w_t := 0\<rparr>
      | Msg_setVolume v \<Rightarrow> w
      | Msg_setLogicalS v \<Rightarrow> w)"

text \<open>The constructor, lines 28--46.\<close>

definition BytebeatProcessor :: "engine \<Rightarrow> worklet" where
  "BytebeatProcessor eng =
     setFormula eng ERROR_FALLBACK_FORMULA
       \<lparr>w_t = 0, w_compiled = None, w_recording = False, w_recordBuffer = [],
        w_recordChunkSize = 4096, w_posted = []\<rparr>"

text \<open>
  \<open>process\<close>, lines 81--127. A parameter array has one element (the value of the whole
  block) or one per frame; \<open>param_at\<close> is the expression
  \<^verbatim>\<open>p.length === 1 ? p[0] : p[i]\<close>. \<open>process_sample\<close> is the body of the loop for
  frame \<open>i\<close> and returns \<open>output[i]\<close> with the new state; \<open>process_loop\<close> runs it
  for \<open>i\<close>, \<open>i + 1\<close> and so on; \<open>process\<close> takes the length of \<open>outputs[0][0]\<close>,
  or \<open>None\<close> when there is no output channel, and the global \<open>sampleRate\<close>.
\<close>

definition param_at :: "real list \<Rightarrow> nat \<Rightarrow> real" where
  "param_at p i = (if length p = 1 then p ! 0 else p ! i)"

definition process_sample ::
  "engine \<Rightarrow> real list \<Rightarrow> real list \<Rightarrow> real \<Rightarrow> nat \<Rightarrow> worklet \<Rightarrow> real \<times> worklet" where
  "process_sample eng volParam sParam incrementPerAudioSample i w =
     (let vol = param_at volParam i;
          currentS = param_at sParam i;
          (raw, w1) =
             (case w_compiled w of
                Some f \<Rightarrow>
                  (case f \<lfloor>w_t w\<rfloor> currentS (fdiv (w_t w) currentS) of
                     Some r \<Rightarrow> (r, w)
                   | None \<Rightarrow>
                       (0, w_catch_fallback eng
                             ''Runtime error; switched to fallback formula: ''
                             ''Runtime error and fallback failed: '' w))
              | None \<Rightarrow> (0, w));
          sample = quantize raw vol;
          w2 = (if w_recording w1
                then (let w' = w1\<lparr>w_recordBuffer := w_recordBuffer w1 @ [sample]\<rparr>
                      in if length (w_recordBuffer w') \<ge> w_recordChunkSize w'
                         then flushRecord w' else w')
                else w1)
      in (sample, w2\<lparr>w_t := fadd (w_t w2) incrementPerAudioSample\<rparr>))"

fun process_loop ::
  "engine \<Rightarrow> real list \<Rightarrow> real list \<Rightarrow> real \<Rightarrow> nat \<Rightarrow> nat \<Rightarrow> worklet
     \<Rightarrow> real list \<times> worklet" where
  "process_loop eng volParam sParam inc i 0 w = ([], w)"
| "process_loop eng volParam sParam inc i (Suc k) w =
     (let (sample, w') = process_sample eng volParam sParam inc i w;
          (rest, w'') = process_loop eng volParam sParam inc (Suc i) k w'
      in (sample # rest, w''))"

definition process ::
  "engine \<Rightarrow> real \<Rightarrow> nat option \<Rightarrow> real list \<Rightarrow> real list \<Rightarrow> worklet
     \<Rightarrow> real list \<times> worklet" where
  "process eng sampleRate output volParam sParam w =
     (case output of
        None \<Rightarrow> ([], w)
      | Some n \<Rightarrow>
          (let sr = sampleRate;
               logicalS_quantum = (if length sParam = 1 then sParam ! 0 else sParam ! 0);
               incrementPerAudioSample = fdiv logicalS_quantum sr
           in process_loop eng volParam sParam incrementPerAudioSample 0 n w))"

section \<open>The extension object\<close>

text \<open>
  \<open>BytebeatExtension\<close>, lines 136--580. The record has the fields the constructor
  assigns (without the leading underscore of the private ones), the \<open>_script\<close> fields
  and the closure variables \<open>t\<close> and \<open>sr\<close> of \<open>_createScriptProcessor\<close> (here
  \<open>script_t\<close> and \<open>script_sr\<close>), and \<open>notices\<close>: the calls of \<open>alert\<close> and
  \<open>console\<close>, oldest first. \<open>audioCtx\<close> holds the sample rate of the context once it
  exists. A worklet node carries the messages posted to its port and not yet delivered.
  The \<open>_script\<close> fields are undefined in the source until the first ScriptProcessor is
  created; the record gives them the values \<open>_createScriptProcessor\<close> would.
\<close>

datatype audio_node = AudioWorkletNode "control_message list" | ScriptProcessorNode

datatype notice =
    Alert string
  | Console_warn string
  | Console_info string
  | Console_error string

record ext =
  audioCtx :: "real option"
  node :: "audio_node option"
  isPlaying :: bool
  usingWorklet :: bool
  workletLoaded :: bool
  logicalSampleRate :: real
  volume :: real
  formula :: string
  recording :: bool
  recordedSamples :: "real list"
  recordMaxSamples :: nat
  preferredChunkSize :: nat
  scriptCompiledFunc :: "compiled_fn option"
  scriptRecordBuffer :: "real list"
  scriptRecording :: bool
  scriptRecordChunkSize :: nat
  script_t :: real
  script_sr :: real
  notices :: "notice list"

definition BytebeatExtension :: ext where
  "BytebeatExtension =
     \<lparr>audioCtx = None, node = None, isPlaying = False, usingWorklet = False,
      workletLoaded = False, logicalSampleRate = 8000, volume = 1,
      formula = ''(t*(t>>5|t>>8))>>(t>>16)'', recording = False, recordedSamples = [],
      recordMaxSamples = 44100 * 60 * 10, preferredChunkSize = 4096,
      scriptCompiledFunc = None, scriptRecordBuffer = [], scriptRecording = False,
      scriptRecordChunkSize = 4096, script_t = 0, script_sr = 44100, notices = []\<rparr>"

text \<open>
  \<open>_handleNodeMessage\<close> (lines 379--399), \<open>_postToNode\<close> (lines 369--377) and the
  closure \<open>_handleScriptMessage\<close> (lines 487--520) call each other: a chunk that takes
  the recording over its maximum posts \<open>record off\<close>, which on the ScriptProcessor
  backend is handled at once and flushes the buffer through \<open>_handleNodeMessage\<close>
  again. The first argument bounds the depth of these nested calls; \<open>None\<close> means the
  bound was reached. Lemma \<open>handleNodeMessage_recordChunk_total\<close> shows that a depth of
  4 is enough whenever the un-flushed buffer is not longer than the maximum.
\<close>

fun handleNodeMessage :: "nat \<Rightarrow> engine \<Rightarrow> port_message \<Rightarrow> ext \<Rightarrow> ext option"
  and postToNode :: "nat \<Rightarrow> engine \<Rightarrow> control_message \<Rightarrow> ext \<Rightarrow> ext option"
  and handleScriptMessage :: "nat \<Rightarrow> engine \<Rightarrow> control_message \<Rightarrow> ext \<Rightarrow> ext option"
where
  "handleNodeMessage 0 eng data e = None"
| "handleNodeMessage (Suc depth) eng data e =
     (case data of
        Msg_error message \<Rightarrow>
          postToNode depth eng (Msg_setFormula ERROR_FALLBACK_FORMULA)
            (e\<lparr>notices := notices e @
                 [Alert (''Bytebeat worklet error: '' @ message @
                    CHR 0x0A # ''Switching to error fallback pattern.'')]\<rparr>)
      | Msg_recordChunk chunk \<Rightarrow>
          (let e1 = e\<lparr>recordedSamples := recordedSamples e @ chunk\<rparr>
           in if length (recordedSamples e1) > recordMaxSamples e1
              then (case postToNode depth eng (Msg_record False)
                           (e1\<lparr>recording := False, recordedSamples := []\<rparr>) of
                      None \<Rightarrow> None
                    | Some e2 \<Rightarrow>
                        Some (e2\<lparr>notices := notices e2 @
                               [Alert ''Recording stopped - reached maximum allowed length.'']\<rparr>))
              else Some e1))"
| "postToNode 0 eng msg e = None"
| "postToNode (Suc depth) eng msg e =
     (case node e of
        None \<Rightarrow> Some e
      | Some nd \<Rightarrow>
          if usingWorklet e
          then (case nd of
                  AudioWorkletNode port \<Rightarrow> Some (e\<lparr>node := Some (AudioWorkletNode (port @ [msg]))\<rparr>)
                | ScriptProcessorNode \<Rightarrow> Some e)
          else handleScriptMessage depth eng msg e)"
| "handleScriptMessage 0 eng msg e = None"
| "handleScriptMessage (Suc depth) eng msg e =
     (case msg of
        Msg_setFormula formulaText \<Rightarrow>
          (case new_Function eng formulaText of
             Some f \<Rightarrow> Some (e\<lparr>scriptCompiledFunc := Some f, script_t := 0\<rparr>)
           | None \<Rightarrow>
               (case new_Function eng ERROR_FALLBACK_FORMULA of
                  Some g \<Rightarrow> Some (e\<lparr>scriptCompiledFunc := Some g\<rparr>)
                | None \<Rightarrow> Some (e\<lparr>scriptCompiledFunc := None\<rparr>)))
      | Msg_record on \<Rightarrow>
          (let e1 = e\<lparr>scriptRecording := on\<rparr>
           in if \<not> scriptRecording e1
              then (if length (scriptRecordBuffer e1) > 0
                    then (case handleNodeMessage depth eng
                                 (Msg_recordChunk (scriptRecordBuffer e1)) e1 of
                            None \<Rightarrow> None
                          | Some e2 \<Rightarrow> Some (e2\<lparr>scriptRecordBuffer := []\<rparr>))
                    else Some e1)
              else Some e1)
      | Msg_setChunkSize sz \<Rightarrow>
          Some (e\<lparr>scriptRecordChunkSize :=
                   max 128 (min 65536 (if sz = 0 then scriptRecordChunkSize e else sz))\<rparr>)
      | Msg_resetTime \<Rightarrow> Some (e\<lparr>script_t := 0\<rparr>)
      | Msg_setVolume v \<Rightarrow> Some e
      | Msg_setLogicalS v \<Rightarrow> Some e)"

text \<open>
  \<open>_createScriptProcessor\<close>, lines 404--437, with the sample rate of the audio context
  as \<open>sr\<close>. The size of the node's block has no effect on the modelled state. The node
  is assumed to be available.
\<close>

definition createScriptProcessor :: "engine \<Rightarrow> real \<Rightarrow> nat \<Rightarrow> ext \<Rightarrow> ext" where
  "createScriptProcessor eng sr bufferSize e =
     (let e1 = e\<lparr>node := Some ScriptProcessorNode, script_t := 0, script_sr := sr,
                  scriptCompiledFunc := None, scriptRecordBuffer := [],
                  scriptRecording := False,
                  scriptRecordChunkSize := preferredChunkSize e\<rparr>;
          fallback =
            (case new_Function eng ERROR_FALLBACK_FORMULA of
               Some g \<Rightarrow>
                 e1\<lparr>scriptCompiledFunc := Some g,
                    notices := notices e1 @
                      [Console_warn ''ScriptProcessor compiled fallback due to compile error:'']\<rparr>
             | None \<Rightarrow>
                 e1\<lparr>scriptCompiledFunc := None,
                    notices := notices e1 @
                      [Console_error ''ScriptProcessor fallback compile failed'']\<rparr>)
      in case new_Function eng (formula e1) of
           Some f \<Rightarrow>
             (case f 0 (logicalSampleRate e1) 0 of
                Some r \<Rightarrow> e1\<lparr>scriptCompiledFunc := Some f\<rparr>
              | None \<Rightarrow> fallback)
         | None \<Rightarrow> fallback)"

text \<open>
  \<open>processFunc\<close>, lines 439--483. The body of its loop is \<open>script_sample\<close>, in three
  steps: the guarded evaluation of the compiled function (\<open>script_eval\<close>, lines
  447--461), the quantizer, and the recording step (\<open>script_record\<close>, lines 469--480).
\<close>

definition script_eval :: "engine \<Rightarrow> real \<Rightarrow> ext \<Rightarrow> int \<times> ext" where
  "script_eval eng logicalS e =
     (case scriptCompiledFunc e of
        Some f \<Rightarrow>
          (case f \<lfloor>script_t e\<rfloor> logicalS (fdiv (script_t e) logicalS) of
             Some r \<Rightarrow> (r, e)
           | None \<Rightarrow>
               (0, case new_Function eng ERROR_FALLBACK_FORMULA of
                     Some g \<Rightarrow>
                       e\<lparr>scriptCompiledFunc := Some g,
                          notices := notices e @
                            [Console_warn ''ScriptProcessor runtime error - switched to fallback:'']\<rparr>
                   | None \<Rightarrow>
                       e\<lparr>scriptCompiledFunc := None,
                          notices := notices e @
                            [Console_error ''ScriptProcessor fallback failed'']\<rparr>))
      | None \<Rightarrow> (0, e))"

definition script_record :: "nat \<Rightarrow> engine \<Rightarrow> real \<Rightarrow> ext \<Rightarrow> ext option" where
  "script_record depth eng sample e =
     (if scriptRecording e
      then (let e2 = e\<lparr>scriptRecordBuffer := scriptRecordBuffer e @ [sample]\<rparr>
            in if length (scriptRecordBuffer e2) \<ge> scriptRecordChunkSize e2
               then (case handleNodeMessage depth eng
                            (Msg_recordChunk (scriptRecordBuffer e2)) e2 of
                       None \<Rightarrow> None
                     | Some e3 \<Rightarrow> Some (e3\<lparr>scriptRecordBuffer := []\<rparr>))
               else Some e2)
      else Some e)"

definition script_sample ::
  "nat \<Rightarrow> engine \<Rightarrow> real \<Rightarrow> real \<Rightarrow> ext \<Rightarrow> (real \<times> ext) option" where
  "script_sample depth eng logicalS increment e =
     (let (raw, e1) = script_eval eng logicalS e;
          sample = quantize raw (if volume e1 = 0 then 1 else volume e1)
      in case script_record depth eng sample e1 of
           None \<Rightarrow> None
         | Some e4 \<Rightarrow> Some (sample, e4\<lparr>script_t := fadd (script_t e4) increment\<rparr>))"

fun processFunc_loop ::
  "nat \<Rightarrow> engine \<Rightarrow> real \<Rightarrow> real \<Rightarrow> nat \<Rightarrow> ext \<Rightarrow> (real list \<times> ext) option" where
  "processFunc_loop depth eng logicalS increment 0 e = Some ([], e)"
| "processFunc_loop depth eng logicalS increment (Suc k) e =
     (case script_sample depth eng logicalS increment e of
        None \<Rightarrow> None
      | Some (sample, e') \<Rightarrow>
          (case processFunc_loop depth eng logicalS increment k e' of
             None \<Rightarrow> None
           | Some (rest, e'') \<Rightarrow> Some (sample # rest, e'')))"

definition processFunc :: "nat \<Rightarrow> engine \<Rightarrow> nat \<Rightarrow> ext \<Rightarrow> (real list \<times> ext) option" where
  "processFunc depth eng blockLen e =
     (let logicalS = max 1 (if logicalSampleRate e = 0 then 8000 else logicalSampleRate e);
          increment = fdiv logicalS (script_sr e)
      in processFunc_loop depth eng logicalS increment blockLen e)"

section \<open>The safety check and the start block\<close>

text \<open>
  \<open>_sanityCheckFormula\<close>, lines 573--579; \<open>Some\<close> is the message of the \<open>Error\<close>
  it throws. \<open>String.prototype.trim\<close> removes white space and line terminators at both
  ends. A \<open>char\<close> stands for a UTF-16 code unit below 256.
\<close>

definition forbidden :: "string list" where
  "forbidden = [''while'', ''for'', ''function'', ''=>'', ''await'', ''async'', ''import'',
     ''export'', ''constructor'', ''this'', ''XMLHttpRequest'', ''fetch'', ''setInterval'',
     ''setTimeout'']"

definition js_includes :: "string \<Rightarrow> string \<Rightarrow> bool" where
  "js_includes s f = sublist f s"

definition sanityCheckFormula :: "string \<Rightarrow> string option" where
  "sanityCheckFormula formulaText =
     (case find (js_includes formulaText) forbidden of
        Some f \<Rightarrow> Some (''Formula contains forbidden substring: '' @ f)
      | None \<Rightarrow> if length formulaText > 2000 then Some ''Formula too long'' else None)"

definition is_whitespace :: "char \<Rightarrow> bool" where
  "is_whitespace c = (of_char c \<in> {9, 10, 11, 12, 13, 32, 160 :: nat})"

definition trim :: "string \<Rightarrow> string" where
  "trim s = rev (dropWhile is_whitespace (rev (dropWhile is_whitespace s)))"

text \<open>
  What \<open>_ensureAudioPrepared\<close> (lines 297--324) finds in the browser. The first
  component of its result is \<open>False\<close> when it throws.
\<close>

record env =
  hasAudioContext :: bool
  contextSampleRate :: real
  hasAudioWorklet :: bool
  addModuleSucceeds :: bool

definition ensureAudioPrepared :: "env \<Rightarrow> ext \<Rightarrow> bool \<times> ext" where
  "ensureAudioPrepared env e =
     (if audioCtx e = None \<and> \<not> hasAudioContext env
      then (False, e\<lparr>notices := notices e @ [Alert ''Web Audio API not supported.'']\<rparr>)
      else
        (let e1 = (if audioCtx e = None then e\<lparr>audioCtx := Some (contextSampleRate env)\<rparr>
                   else e);
             e2 = (if hasAudioWorklet env \<and> \<not> workletLoaded e1
                   then (if addModuleSucceeds env
                         then e1\<lparr>workletLoaded := True\<rparr>
                         else e1\<lparr>notices := notices e1 @
                                  [Console_info ''AudioWorklet addModule failed - falling back to ScriptProcessorNode.''],
                                workletLoaded := False\<rparr>)
                   else e1)
         in (True, e2\<lparr>usingWorklet := workletLoaded e2\<rparr>)))"

text \<open>\<open>_startAudio\<close> (lines 329--355) and \<open>_stopAudio\<close> (lines 357--367).\<close>

definition startAudio :: "nat \<Rightarrow> engine \<Rightarrow> ext \<Rightarrow> ext option" where
  "startAudio depth eng e =
     (case audioCtx e of
        None \<Rightarrow> Some e
      | Some sr \<Rightarrow>
          if isPlaying e then Some e
          else if usingWorklet e
          then do {
            e1 \<leftarrow> postToNode depth eng (Msg_setChunkSize (preferredChunkSize e))
                    (e\<lparr>node := Some (AudioWorkletNode [])\<rparr>);
            e2 \<leftarrow> postToNode depth eng (Msg_setFormula (formula e1)) e1;
            Some (e2\<lparr>isPlaying := True\<rparr>)
          }
          else do {
            e1 \<leftarrow> handleScriptMessage depth eng (Msg_setFormula (formula e))
                    (createScriptProcessor eng sr (preferredChunkSize e) e);
            e2 \<leftarrow> handleScriptMessage depth eng (Msg_record (recording e1)) e1;
            Some (e2\<lparr>isPlaying := True\<rparr>)
          })"

definition stopAudio :: "nat \<Rightarrow> engine \<Rightarrow> ext \<Rightarrow> ext option" where
  "stopAudio depth eng e =
     (if \<not> isPlaying e then Some e
      else case node e of
             None \<Rightarrow> Some (e\<lparr>isPlaying := False\<rparr>)
           | Some nd \<Rightarrow> do {
               e1 \<leftarrow> postToNode depth eng (Msg_record False) e;
               Some (e1\<lparr>node := None, isPlaying := False\<rparr>)
             })"

text \<open>
  \<open>startFormula\<close>, lines 196--213, with \<open>args.FORMULA\<close> as \<open>FORMULA\<close>. When
  \<open>_ensureAudioPrepared\<close> throws, the rest of the function does not run.
\<close>

definition startFormula :: "nat \<Rightarrow> env \<Rightarrow> engine \<Rightarrow> string \<Rightarrow> ext \<Rightarrow> ext option" where
  "startFormula depth env eng FORMULA e =
     (let e1 = e\<lparr>formula := trim (if FORMULA = [] then formula e else FORMULA)\<rparr>;
          e2 = (case sanityCheckFormula (formula e1) of
                  Some message \<Rightarrow>
                    e1\<lparr>notices := notices e1 @
                          [Console_warn (''Formula rejected by sanity check: '' @ message)],
                       formula := ERROR_FALLBACK_FORMULA\<rparr>
                | None \<Rightarrow> e1);
          (prepared, e3) = ensureAudioPrepared env e2
      in if \<not> prepared then Some e3
         else do {
           e4 \<leftarrow> postToNode depth eng (Msg_setFormula (formula e3)) e3;
           if \<not> isPlaying e4 then startAudio depth eng e4 else Some e4
         })"

section \<open>Property lookup on the extension object\<close>

text \<open>
  \<open>obj.name\<close> finds an own property of the object before a property of its prototype.
  The constructor assigns the own properties listed in \<open>own_property\<close>; the methods of
  the class are on the prototype. Calling a value that is not a function throws a
  \<open>TypeError\<close>. \<open>call_isPlaying\<close> is the call \<open>ext.isPlaying()\<close>: the body of the
  method at lines 249--251 is \<open>return !!this.isPlaying\<close>.
\<close>

datatype js_value =
    JS_boolean bool
  | JS_number real
  | JS_string string
  | JS_function string
  | JS_object
  | JS_null
  | JS_undefined

datatype js_error = TypeError

definition own_property :: "ext \<Rightarrow> string \<Rightarrow> js_value option" where
  "own_property e name =
     (if name = ''runtime'' then Some JS_undefined
      else if name = ''audioCtx'' then Some (if audioCtx e = None then JS_null else JS_object)
      else if name = ''node'' then Some (if node e = None then JS_null else JS_object)
      else if name = ''isPlaying'' then Some (JS_boolean (isPlaying e))
      else if name = ''_usingWorklet'' then Some (JS_boolean (usingWorklet e))
      else if name = ''_workletLoaded'' then Some (JS_boolean (workletLoaded e))
      else if name = ''logicalSampleRate'' then Some (JS_number (logicalSampleRate e))
      else if name = ''volume'' then Some (JS_number (volume e))
      else if name = ''formula'' then Some (JS_string (formula e))
      else if name = ''recording'' then Some (JS_boolean (recording e))
      else if name = ''recordedSamples'' then Some JS_object
      else if name = ''recordMaxSamples'' then Some (JS_number (real (recordMaxSamples e)))
      else if name = ''preferredChunkSize'' then Some (JS_number (real (preferredChunkSize e)))
      else if name = ''_handleScriptMessage'' then Some (JS_function name)
      else None)"

definition prototype_methods :: "string list" where
  "prototype_methods = [''getInfo'', ''startFormula'', ''stop'', ''setProperty'', ''isPlaying'',
     ''recordStart'', ''recordStopSave'', ''exampleFormula'', ''_ensureAudioPrepared'',
     ''_startAudio'', ''_stopAudio'', ''_postToNode'', ''_handleNodeMessage'',
     ''_createScriptProcessor'', ''_recreateScriptProcessor'', ''_makeWavBlob'',
     ''_sanityCheckFormula'']"

definition get_property :: "ext \<Rightarrow> string \<Rightarrow> js_value" where
  "get_property e name =
     (case own_property e name of
        Some v \<Rightarrow> v
      | None \<Rightarrow> if name \<in> set prototype_methods then JS_function name else JS_undefined)"

definition ToBoolean :: "js_value \<Rightarrow> bool" where
  "ToBoolean v =
     (case v of
        JS_boolean b \<Rightarrow> b
      | JS_number x \<Rightarrow> x \<noteq> 0
      | JS_string s \<Rightarrow> s \<noteq> []
      | JS_function f \<Rightarrow> True
      | JS_object \<Rightarrow> True
      | JS_null \<Rightarrow> False
      | JS_undefined \<Rightarrow> False)"

definition call_isPlaying :: "ext \<Rightarrow> js_error + bool" where
  "call_isPlaying e =
     (case get_property e ''isPlaying'' of
        JS_function f \<Rightarrow> Inr (ToBoolean (get_property e ''isPlaying''))
      | _ \<Rightarrow> Inl TypeError)"

section \<open>A small engine for concrete runs\<close>

text \<open>
  An engine that knows four bodies: the fallback formula, \<open>t\<close>, \<open>x\<close> (compiles, and
  throws a \<open>ReferenceError\<close> whenever it is called) and \<open>t>3?x:0\<close> (throws once
  \<open>t\<close> is above 3). \<open>fallback_function\<close> multiplies exactly; the engine's double
  rounds the product when it is above \<open>2^53\<close> in magnitude.
\<close>

definition bitxor32 :: "int \<Rightarrow> int \<Rightarrow> int" where
  "bitxor32 a b = sint ((word_of_int a :: 32 word) XOR word_of_int b)"

definition sar32 :: "int \<Rightarrow> nat \<Rightarrow> int" where
  "sar32 a n = sint (signed_drop_bit (n mod 32) (word_of_int a :: 32 word))"

definition fallback_function :: compiled_fn where
  "fallback_function t s T =
     Some (bitor32
       (t * bitxor32 (bitxor32 t (t + bitor32 (sar32 t 15) 1))
              (sar32 (bitxor32 (t - 1280) t) 10)) 0)"

definition identity_function :: compiled_fn where
  "identity_function t s T = Some (bitor32 t 0)"

definition throwing_later :: compiled_fn where
  "throwing_later t s T = (if t > 3 then None else Some 0)"

definition sample_engine :: engine where
  "sample_engine body =
     (if body = ''return (t*(t^t+(t>>15|1)^(t-1280^t)>>10))|0;'' then Some fallback_function
      else if body = ''return (t)|0;'' then Some identity_function
      else if body = ''return (x)|0;'' then Some (\<lambda>t s T. None)
      else if body = ''return (t>3?x:0)|0;'' then Some throwing_later
      else None)"

definition script_only_env :: env where
  "script_only_env =
     \<lparr>hasAudioContext = True, contextSampleRate = 44100, hasAudioWorklet = False,
      addModuleSucceeds = False\<rparr>"

definition sample_worklet_ext :: ext where
  "sample_worklet_ext =
     BytebeatExtension\<lparr>audioCtx := Some 44100, node := Some (AudioWorkletNode []),
       isPlaying := True, usingWorklet := True, workletLoaded := True, recording := True,
       recordedSamples := replicate 26460000 0\<rparr>"

definition sample_worklet :: worklet where
  "sample_worklet =
     \<lparr>w_t = 5, w_compiled = Some throwing_later, w_recording = True, w_recordBuffer = [],
      w_recordChunkSize = 4096, w_posted = []\<rparr>"

definition sample_script :: ext where
  "sample_script =
     BytebeatExtension\<lparr>audioCtx := Some 44100, node := Some ScriptProcessorNode,
       isPlaying := True, recording := True, scriptCompiledFunc := Some throwing_later,
       script_t := 5, scriptRecording := True\<rparr>"

section \<open>Observations used in the statements\<close>

text \<open>
  \<open>w_raw\<close> and \<open>script_raw\<close>: the raw value a sample gets (0 when there is no compiled
  function or when it throws). \<open>w_evaluated\<close> and \<open>script_next_compiled\<close>: the state,
  and the compiled function, after the guarded evaluation. \<open>script_gain\<close>: the factor
  \<open>self.volume || 1.0\<close>. \<open>script_frame\<close>: the fields that handling a recording
  message leaves alone. \<open>script_ok\<close>: the un-flushed buffer is shorter than the maximum
  and the chunk size does not exceed it (the chunk size is at most 65536, the maximum is
  26460000). \<open>chunk_samples\<close>: the samples of the chunks among posted messages.
  \<open>clock_after j inc t\<close>: the clock after \<open>j\<close> samples from \<open>t\<close>, each adding
  \<open>inc\<close> in double precision.
\<close>

primrec clock_after :: "nat \<Rightarrow> real \<Rightarrow> real \<Rightarrow> real" where
  "clock_after 0 inc t = t"
| "clock_after (Suc j) inc t = fadd (clock_after j inc t) inc"

definition w_raw :: "real list \<Rightarrow> nat \<Rightarrow> worklet \<Rightarrow> int" where
  "w_raw sParam i w =
     (case w_compiled w of
        None \<Rightarrow> 0
      | Some f \<Rightarrow>
          (case f \<lfloor>w_t w\<rfloor> (param_at sParam i) (fdiv (w_t w) (param_at sParam i)) of
             None \<Rightarrow> 0 | Some r \<Rightarrow> r))"

definition script_frame :: "ext \<Rightarrow> ext \<Rightarrow> bool" where
  "script_frame e e' \<longleftrightarrow>
     script_t e' = script_t e \<and> scriptCompiledFunc e' = scriptCompiledFunc e \<and>
     scriptRecordChunkSize e' = scriptRecordChunkSize e \<and>
     recordMaxSamples e' = recordMaxSamples e \<and>
     logicalSampleRate e' = logicalSampleRate e \<and> volume e' = volume e \<and>
     script_sr e' = script_sr e \<and> isPlaying e' = isPlaying e \<and>
     usingWorklet e' = usingWorklet e"

definition script_raw :: "real \<Rightarrow> ext \<Rightarrow> int" where
  "script_raw logicalS e =
     (case scriptCompiledFunc e of
        None \<Rightarrow> 0
      | Some f \<Rightarrow>
          (case f \<lfloor>script_t e\<rfloor> logicalS (fdiv (script_t e) logicalS) of
             None \<Rightarrow> 0 | Some r \<Rightarrow> r))"

definition script_gain :: "ext \<Rightarrow> real" where
  "script_gain e = (if volume e = 0 then 1 else volume e)"

definition script_next_compiled :: "engine \<Rightarrow> real \<Rightarrow> ext \<Rightarrow> compiled_fn option" where
  "script_next_compiled eng logicalS e =
     (case scriptCompiledFunc e of
        None \<Rightarrow> None
      | Some f \<Rightarrow>
          (case f \<lfloor>script_t e\<rfloor> logicalS (fdiv (script_t e) logicalS) of
             None \<Rightarrow> new_Function eng ERROR_FALLBACK_FORMULA
           | Some r \<Rightarrow> Some f))"

definition script_ok :: "ext \<Rightarrow> bool" where
  "script_ok e \<longleftrightarrow>
     length (scriptRecordBuffer e) < recordMaxSamples e \<and>
     scriptRecordChunkSize e \<le> recordMaxSamples e"

fun chunk_samples :: "port_message list \<Rightarrow> real list" where
  "chunk_samples [] = []"
| "chunk_samples (Msg_recordChunk c # ms) = c @ chunk_samples ms"
| "chunk_samples (Msg_error s # ms) = chunk_samples ms"

definition w_evaluated :: "engine \<Rightarrow> real list \<Rightarrow> nat \<Rightarrow> worklet \<Rightarrow> worklet" where
  "w_evaluated eng sParam i w =
     (case w_compiled w of
        None \<Rightarrow> w
      | Some f \<Rightarrow>
          (case f \<lfloor>w_t w\<rfloor> (param_at sParam i) (fdiv (w_t w) (param_at sParam i)) of
             None \<Rightarrow> w_catch_fallback eng ''Runtime error; switched to fallback formula: ''
                       ''Runtime error and fallback failed: '' w
           | Some r \<Rightarrow> w))"

section \<open>Rounding to double precision\<close>

text \<open>
  \<open>fl\<close> moves a number by at most half a unit in the last place; in the range of the
  normal doubles that is a relative error of at most \<open>2^-53\<close> (\<open>fl_error\<close>). A
  number with a significand of 53 bits is a double and is left alone
  (\<open>fl_representable\<close>). \<open>fl_eval\<close> computes \<open>fl\<close> of a given number from the exponent
  of its binade.
\<close>

lemma round_ties_even_error: "\<bar>of_int (round_ties_even y) - y\<bar> \<le> 1 / 2"
  unfolding round_ties_even_def Let_def by (auto; linarith)

lemma round_ties_even_int: "round_ties_even (of_int k) = k"
  by (simp add: round_ties_even_def)

lemma round_ties_even_nonneg: "0 \<le> y \<Longrightarrow> 0 \<le> round_ties_even y"
  unfolding round_ties_even_def Let_def by (auto; linarith)

lemma binade_search_lower:
  "2 powi (- 1022) \<le> x \<Longrightarrow> 2 powi (binade_search n x) \<le> x"
  by (induction n) simp_all

lemma binade_search_cases:
  "binade_search n x = - 1022 \<or> 2 powi (binade_search n x) \<le> x"
  by (induction n) auto

lemma binade_search_upper:
  "x < 2 powi (int n - 1021) \<Longrightarrow> x < 2 powi (binade_search n x + 1)"
proof (induction n)
  case 0
  then show ?case by simp
next
  case (Suc n)
  have e: "int (Suc n) - 1021 = int n - 1021 + 1" by simp
  show ?case
  proof (cases "2 powi (int n - 1021) \<le> x")
    case True
    then show ?thesis using Suc.prems unfolding e by simp
  next
    case False
    then show ?thesis using Suc.IH by simp
  qed
qed

lemma binade_search_range: "- 1022 \<le> binade_search n x \<and> binade_search n x \<le> int n - 1022"
  by (induction n) auto

lemma binade_range: "- 1022 \<le> binade x \<and> binade x \<le> 1023"
  using binade_search_range [of 2045 "\<bar>x\<bar>"] by (simp add: binade_def)

lemma binade_eq:
  assumes "2 powi e \<le> \<bar>x\<bar>" "\<bar>x\<bar> < 2 powi (e + 1)" "- 1022 \<le> e" "e \<le> 1023"
  shows "binade x = e"
proof -
  have l: "(2::real) powi (- 1022) \<le> \<bar>x\<bar>"
    using power_int_increasing [of "- 1022" e "2::real"] assms(1,3) by simp
  have u: "\<bar>x\<bar> < 2 powi (int 2045 - 1021)"
    using power_int_increasing [of "e + 1" 1024 "2::real"] assms(2,4) by simp
  have a: "2 powi (binade x) \<le> \<bar>x\<bar>"
    unfolding binade_def by (rule binade_search_lower [OF l])
  have b: "\<bar>x\<bar> < 2 powi (binade x + 1)"
    unfolding binade_def by (rule binade_search_upper [OF u])
  have "(2::real) powi (binade x) < 2 powi (e + 1)" using a assms(2) by linarith
  then have 1: "binade x < e + 1"
    using power_int_increasing [of "e + 1" "binade x" "2::real"] by (cases "binade x < e + 1") auto
  have "(2::real) powi e < 2 powi (binade x + 1)" using b assms(1) by linarith
  then have 2: "e < binade x + 1"
    using power_int_increasing [of "binade x + 1" e "2::real"] by (cases "e < binade x + 1") auto
  from 1 2 show ?thesis by simp
qed

lemma ulp_pos: "0 < ulp x"
  by (simp add: ulp_def zero_less_power_int)

lemma fl_nonneg: "0 \<le> x \<Longrightarrow> 0 \<le> fl x"
  unfolding fl_def using ulp_pos [of x] round_ties_even_nonneg [of "x / ulp x"] by simp

lemma fl_error_ulp: "\<bar>fl x - x\<bar> \<le> ulp x / 2"
proof -
  have "fl x - x = (of_int (round_ties_even (x / ulp x)) - x / ulp x) * ulp x"
    using ulp_pos [of x] by (simp add: fl_def field_simps)
  then have "\<bar>fl x - x\<bar> = \<bar>of_int (round_ties_even (x / ulp x)) - x / ulp x\<bar> * ulp x"
    using ulp_pos [of x] by (simp add: abs_mult)
  also have "\<dots> \<le> 1 / 2 * ulp x"
    using round_ties_even_error [of "x / ulp x"] ulp_pos [of x]
    by (intro mult_right_mono) simp_all
  finally show ?thesis by simp
qed

lemma fl_error:
  assumes "2 powi (- 1022) \<le> \<bar>x\<bar>"
  shows "\<bar>fl x - x\<bar> \<le> \<bar>x\<bar> / 2 ^ 53"
proof -
  have a: "2 powi (binade x) \<le> \<bar>x\<bar>"
    unfolding binade_def by (rule binade_search_lower [OF assms])
  have "ulp x = 2 powi (binade x) / 2 ^ 52"
    unfolding ulp_def by (subst power_int_diff) simp_all
  then have "ulp x / 2 \<le> \<bar>x\<bar> / 2 ^ 53"
    using a by (simp add: field_simps)
  then show ?thesis using fl_error_ulp [of x] by linarith
qed

lemma fl_representable:
  assumes "\<bar>m\<bar> < 2 ^ 53" "- 1074 \<le> e"
  shows "fl (of_int m * 2 powi e) = of_int m * 2 powi e"
proof -
  let ?x = "of_int m * 2 powi e :: real"
  have ax: "\<bar>?x\<bar> = of_int \<bar>m\<bar> * 2 powi e"
    by (simp add: abs_mult)
  have le: "binade ?x - 52 \<le> e"
  proof (cases "binade ?x = - 1022")
    case True
    then show ?thesis using assms(2) by simp
  next
    case False
    then have "2 powi (binade ?x) \<le> \<bar>?x\<bar>"
      using binade_search_cases [of 2045 "\<bar>?x\<bar>"] by (simp add: binade_def)
    also have "\<bar>?x\<bar> < 2 ^ 53 * 2 powi e"
      unfolding ax using assms(1) by (intro mult_strict_right_mono) (simp_all add: zero_less_power_int flip: of_int_less_iff [where 'a = real])
    also have "\<dots> = 2 powi (53 + e)"
      by (subst power_int_add) simp_all
    finally have "binade ?x < 53 + e"
      using power_int_increasing [of "53 + e" "binade ?x" "2::real"]
      by (cases "binade ?x < 53 + e") auto
    then show ?thesis by simp
  qed
  define d where "d = nat (e - (binade ?x - 52))"
  have e: "e = (binade ?x - 52) + int d" using le by (simp add: d_def)
  have "2 powi e = 2 powi (binade ?x - 52) * (2::real) ^ d"
    by (subst e, subst power_int_add) (simp_all add: power_int_def)
  then have q: "?x / ulp ?x = of_int (m * 2 ^ d)"
    using ulp_pos [of ?x] by (simp add: ulp_def field_simps)
  have "fl ?x = of_int (m * 2 ^ d) * ulp ?x"
    unfolding fl_def q round_ties_even_int ..
  also have "\<dots> = ?x / ulp ?x * ulp ?x" unfolding q ..
  also have "\<dots> = ?x" using ulp_pos [of ?x] by simp
  finally show ?thesis .
qed

lemma fl_eval:
  assumes "2 powi e \<le> \<bar>x\<bar>" "\<bar>x\<bar> < 2 powi (e + 1)" "- 1022 \<le> e" "e \<le> 1023"
    "round_ties_even (x / 2 powi (e - 52)) = k"
  shows "fl x = of_int k * 2 powi (e - 52)"
  unfolding fl_def ulp_def binade_eq [OF assms(1-4)] assms(5) ..

text \<open>
  The clock after \<open>n\<close> additions of \<open>inc\<close>, against the exact sum: the relative error
  is at most \<open>(1 + 2^-53)^n - 1\<close>, and with the increment \<open>fdiv L P\<close> against
  \<open>n * (L / P)\<close> at most \<open>(1 + 2^-53)^(n + 1) - 1\<close>.
\<close>

lemma clock_after_Suc: "clock_after (Suc j) inc t = clock_after j inc (fadd t inc)"
  by (induction j) simp_all

lemma round_ties_even_ge: "of_int k \<le> y \<Longrightarrow> k \<le> round_ties_even y"
  unfolding round_ties_even_def Let_def by (auto; linarith)

lemma fl_normal_lower:
  assumes "2 powi (- 1022) \<le> x"
  shows "2 powi (- 1022) \<le> fl x"
proof -
  have x: "0 < x" using assms zero_less_power_int [of "2::real" "- 1022"] by linarith
  have a: "2 powi (binade x) \<le> x"
    using binade_search_lower [of "\<bar>x\<bar>" 2045] assms x by (simp add: binade_def)
  have u: "ulp x = 2 powi (binade x) / 2 ^ 52"
    unfolding ulp_def by (subst power_int_diff) simp_all
  then have "of_int (2 ^ 52) \<le> x / ulp x" using a ulp_pos [of x] by (simp add: field_simps)
  then have "2 ^ 52 \<le> round_ties_even (x / ulp x)" by (rule round_ties_even_ge)
  then have "(2::real) ^ 52 \<le> of_int (round_ties_even (x / ulp x))"
    by (metis of_int_le_iff of_int_numeral of_int_power)
  then have "2 ^ 52 * ulp x \<le> fl x"
    unfolding fl_def using ulp_pos [of x] by (intro mult_right_mono) simp_all
  then have "2 powi (binade x) \<le> fl x" by (simp add: u)
  moreover have "(2::real) powi (- 1022) \<le> 2 powi (binade x)"
    using binade_range [of x] by (intro power_int_increasing) simp_all
  ultimately show ?thesis by linarith
qed

lemma clock_after_error:
  assumes t: "0 \<le> t" and i: "2 powi (- 1022) \<le> inc"
  shows "0 \<le> clock_after n inc t \<and>
         \<bar>clock_after n inc t - (t + real n * inc)\<bar>
           \<le> (t + real n * inc) * ((1 + 1 / 2 ^ 53) ^ n - 1)"
proof (induction n)
  case 0
  then show ?case using t by simp
next
  case (Suc n)
  define u :: real where "u = 1 / 2 ^ 53"
  define A where "A = (1 + u) ^ n"
  define S where "S = t + real n * inc"
  define c where "c = clock_after n inc t"
  define y where "y = c + inc"
  have u0: "0 < u" by (simp add: u_def)
  have A1: "1 \<le> A" unfolding A_def using u0 by (intro one_le_power) simp
  have i0: "0 < inc" using i zero_less_power_int [of "2::real" "- 1022"] by linarith
  have S0: "0 \<le> S" unfolding S_def using t i0 by simp
  have c0: "0 \<le> c" and ce: "\<bar>c - S\<bar> \<le> S * (A - 1)"
    using Suc.IH by (simp_all add: c_def S_def A_def u_def)
  have y0: "2 powi (- 1022) \<le> \<bar>y\<bar>" using c0 i by (simp add: y_def)
  have ypos: "0 \<le> y" using c0 i0 by (simp add: y_def)
  have fe: "\<bar>fl y - y\<bar> \<le> y * u"
    using fl_error [OF y0] ypos by (simp add: u_def)
  have m: "S * (A - 1) \<le> (S + inc) * (A - 1)"
    using A1 i0 by (intro mult_right_mono) simp_all
  have ye: "\<bar>y - (S + inc)\<bar> \<le> (S + inc) * (A - 1)"
    using ce m by (simp add: y_def)
  then have "y \<le> (S + inc) + (S + inc) * (A - 1)" by linarith
  then have yu: "y \<le> (S + inc) * A" by (simp add: algebra_simps)
  have "y * u \<le> (S + inc) * A * u" using yu u0 by (intro mult_right_mono) simp_all
  then have "\<bar>fl y - (S + inc)\<bar> \<le> (S + inc) * A * u + (S + inc) * (A - 1)"
    using fe ye by linarith
  also have "\<dots> = (S + inc) * (A * (1 + u) - 1)" by (simp add: algebra_simps)
  finally have r: "\<bar>fl y - (S + inc)\<bar> \<le> (S + inc) * (A * (1 + u) - 1)" .
  have f: "clock_after (Suc n) inc t = fl y" by (simp add: fadd_def y_def c_def)
  have s: "t + real (Suc n) * inc = S + inc" by (simp add: S_def algebra_simps)
  have a: "(1 + 1 / 2 ^ 53) ^ Suc n = A * (1 + u)" by (simp add: A_def u_def)
  show ?case unfolding f s a using r fl_nonneg [OF ypos] by simp
qed

lemma clock_tolerance:
  assumes t: "0 \<le> t" and q: "2 powi (- 1022) \<le> L / P"
  shows "\<bar>clock_after n (fdiv L P) t - (t + real n * (L / P))\<bar>
           \<le> (t + real n * (L / P)) * ((1 + 1 / 2 ^ 53) ^ (n + 1) - 1)"
proof -
  define u :: real where "u = 1 / 2 ^ 53"
  define A where "A = (1 + u) ^ n"
  define Q where "Q = L / P"
  define inc where "inc = fdiv L P"
  define N where "N = real n"
  have u0: "0 < u" by (simp add: u_def)
  have A1: "1 \<le> A" unfolding A_def using u0 by (intro one_le_power) simp
  have Q0: "0 < Q" using q zero_less_power_int [of "2::real" "- 1022"] unfolding Q_def by linarith
  have N0: "0 \<le> N" by (simp add: N_def)
  have aq: "\<bar>Q\<bar> = Q" using Q0 by simp
  have "2 powi (- 1022) \<le> Q" unfolding Q_def by (rule q)
  then have "2 powi (- 1022) \<le> \<bar>Q\<bar>" by (simp only: aq)
  from fl_error [OF this] have "\<bar>fl Q - Q\<bar> \<le> Q / 2 ^ 53" by (simp only: aq)
  then have ie: "\<bar>inc - Q\<bar> \<le> Q * u"
    unfolding inc_def fdiv_def u_def Q_def by simp
  have il: "2 powi (- 1022) \<le> inc"
    unfolding inc_def fdiv_def using q by (rule fl_normal_lower)
  have ce: "\<bar>clock_after n inc t - (t + N * inc)\<bar> \<le> (t + N * inc) * (A - 1)"
    using clock_after_error [OF t il, of n] by (simp add: A_def u_def N_def)
  have iu: "inc \<le> Q * (1 + u)" using ie by (simp add: algebra_simps)
  have "N * inc \<le> N * (Q * (1 + u))" using iu N0 by (intro mult_left_mono)
  moreover have "t \<le> t * (1 + u)" using t u0 by (simp add: algebra_simps)
  ultimately have "t + N * inc \<le> (t + N * Q) * (1 + u)" by (simp add: algebra_simps)
  then have 1: "(t + N * inc) * (A - 1) \<le> (t + N * Q) * (1 + u) * (A - 1)"
    using A1 by (intro mult_right_mono) simp_all
  have "\<bar>N * inc - N * Q\<bar> = N * \<bar>inc - Q\<bar>"
    using N0 by (simp add: abs_mult flip: right_diff_distrib)
  also have "\<dots> \<le> N * (Q * u)" using ie N0 by (intro mult_left_mono)
  also have "\<dots> \<le> (t + N * Q) * u" using t u0 by (simp add: algebra_simps)
  finally have 2: "\<bar>N * inc - N * Q\<bar> \<le> (t + N * Q) * u" .
  have "\<bar>clock_after n inc t - (t + N * Q)\<bar>
          \<le> \<bar>clock_after n inc t - (t + N * inc)\<bar> + \<bar>N * inc - N * Q\<bar>" by linarith
  also have "\<dots> \<le> (t + N * Q) * (1 + u) * (A - 1) + (t + N * Q) * u"
    using ce 1 2 by linarith
  also have "\<dots> = (t + N * Q) * (A * (1 + u) - 1)" by (simp add: algebra_simps)
  finally show ?thesis by (simp add: inc_def Q_def N_def A_def u_def mult.commute)
qed

text \<open>
  The default logical rate of 8000 Hz on an output of 48000 Hz: the increment is the
  double nearest to \<open>1 / 6\<close>, which lies below \<open>1 / 6\<close>, the third addition is a tie
  that rounds to \<open>1 / 2\<close>, and six additions reach \<open>1 - 2^-53\<close>, not 1.
\<close>

lemma fdiv_8000_48000: "fdiv 8000 48000 = 6004799503160661 / 2 ^ 55"
  unfolding fdiv_def
  using fl_eval [of "- 3" "8000 / 48000" 6004799503160661]
  by (simp add: round_ties_even_def Let_def)

lemma clock_8000_48000:
  "clock_after 6 (fdiv 8000 48000) 0 = 9007199254740991 / 2 ^ 53"
proof -
  define i :: real where "i = 6004799503160661 / 2 ^ 55"
  have 1: "fadd 0 i = i"
    unfolding fadd_def i_def
    using fl_eval [of "- 3" "0 + 6004799503160661 / 2 ^ 55" 6004799503160661]
    by (simp add: round_ties_even_def Let_def)
  have 2: "fadd i i = 6004799503160661 / 2 ^ 54"
    unfolding fadd_def i_def
    using fl_eval [of "- 2" "6004799503160661 / 2 ^ 55 + 6004799503160661 / 2 ^ 55" 6004799503160661]
    by (simp add: round_ties_even_def Let_def)
  have 3: "fadd (6004799503160661 / 2 ^ 54) i = 1 / 2"
    unfolding fadd_def i_def
    using fl_eval [of "- 2" "6004799503160661 / 2 ^ 54 + 6004799503160661 / 2 ^ 55" 9007199254740992]
    by (simp add: round_ties_even_def Let_def)
  have 4: "fadd (1 / 2) i = 6004799503160661 / 2 ^ 53"
    unfolding fadd_def i_def
    using fl_eval [of "- 1" "1 / 2 + 6004799503160661 / 2 ^ 55" 6004799503160661]
    by (simp add: round_ties_even_def Let_def)
  have 5: "fadd (6004799503160661 / 2 ^ 53) i = 7505999378950826 / 2 ^ 53"
    unfolding fadd_def i_def
    using fl_eval [of "- 1" "6004799503160661 / 2 ^ 53 + 6004799503160661 / 2 ^ 55" 7505999378950826]
    by (simp add: round_ties_even_def Let_def)
  have 6: "fadd (7505999378950826 / 2 ^ 53) i = 9007199254740991 / 2 ^ 53"
    unfolding fadd_def i_def
    using fl_eval [of "- 1" "7505999378950826 / 2 ^ 53 + 6004799503160661 / 2 ^ 55" 9007199254740991]
    by (simp add: round_ties_even_def Let_def)
  have s: "clock_after 6 i 0 = fadd (fadd (fadd (fadd (fadd (fadd 0 i) i) i) i) i) i"
    by (simp add: eval_nat_numeral)
  have "clock_after 6 i 0 = 9007199254740991 / 2 ^ 53" unfolding s 1 2 3 4 5 6 ..
  then show ?thesis unfolding fdiv_8000_48000 i_def .
qed

lemma clock_8000_48000_end:
  "clock_after 7 (fdiv 8000 48000) 0 = 5254199565265578 / 2 ^ 52"
proof -
  have a: "fadd (9007199254740991 / 2 ^ 53) (6004799503160661 / 2 ^ 55) = 5254199565265578 / 2 ^ 52"
    unfolding fadd_def
    using fl_eval [of 0 "9007199254740991 / 2 ^ 53 + 6004799503160661 / 2 ^ 55" 5254199565265578]
    by (simp add: round_ties_even_def Let_def)
  have "clock_after 7 (fdiv 8000 48000) 0 =
      fadd (clock_after 6 (fdiv 8000 48000) 0) (fdiv 8000 48000)"
    by (simp add: eval_nat_numeral)
  also have "\<dots> = 5254199565265578 / 2 ^ 52"
    by (subst clock_8000_48000, subst fdiv_8000_48000, rule a)
  finally show ?thesis .
qed






text \<open>
  The tolerance \<open>(1 + 2^-53)^m - 1\<close> is at most \<open>m * 2^-52\<close> for every \<open>m\<close> up to
  \<open>2^52\<close>.
\<close>

lemma power_linear_bound:
  fixes u :: real
  assumes "0 < u" "2 * real m * u \<le> 1"
  shows "(1 + u) ^ m \<le> 1 + 2 * real m * u"
  using assms(2)
proof (induction m)
  case 0
  then show ?case by simp
next
  case (Suc m)
  define A where "A = (1 + u) ^ m"
  have m: "2 * real m * u \<le> 1"
  proof -
    have "2 * real m * u \<le> 2 * real (Suc m) * u"
      using assms(1) by (intro mult_right_mono mult_left_mono) simp_all
    then show ?thesis using Suc.prems by linarith
  qed
  from Suc.IH [OF m] have A: "A \<le> 1 + 2 * real m * u" by (simp add: A_def)
  have "A * (1 + u) \<le> (1 + 2 * real m * u) * (1 + u)"
    using A assms(1) by (intro mult_right_mono) simp_all
  also have "\<dots> = 1 + 2 * real m * u + u + (2 * real m * u) * u" by (simp add: algebra_simps)
  also have "\<dots> \<le> 1 + 2 * real m * u + u + 1 * u"
    using m assms(1) by (intro add_left_mono mult_right_mono) simp_all
  also have "\<dots> = 1 + 2 * real (Suc m) * u" by (simp add: algebra_simps)
  finally show ?case by (simp add: A_def mult.commute)
qed

lemma tolerance_linear:
  assumes "real m \<le> 2 ^ 52"
  shows "(1 + 1 / 2 ^ 53) ^ m - 1 \<le> real m / (2 ^ 52 :: real)"
proof -
  have "2 * real m * (1 / 2 ^ 53) \<le> 1" using assms by simp
  from power_linear_bound [OF _ this] have "(1 + 1 / 2 ^ 53) ^ m \<le> 1 + 2 * real m * (1 / 2 ^ 53)"
    by simp
  also have "2 * real m * (1 / 2 ^ 53) = real m / (2 ^ 52 :: real)" by simp
  finally show ?thesis by simp
qed

section \<open>The quantizer masks to the low byte\<close>

lemma and255: "(w :: 32 word) AND 255 = take_bit 8 w"
proof -
  have "(255 :: 32 word) = mask 8" by (simp add: mask_eq_exp_minus_1)
  then show ?thesis by (simp add: take_bit_eq_mask)
qed

lemma sint_take_bit8: "sint (take_bit 8 (w :: 32 word)) = uint w mod 256"
proof -
  have u: "uint (take_bit 8 w) = uint w mod 256"
    unfolding unsigned_take_bit_eq by (simp add: take_bit_eq_mod)
  have "0 \<le> uint w mod 256" "uint w mod 256 < 256" by simp_all
  then have "signed_take_bit 31 (uint w mod 256) = uint w mod 256"
    by (intro signed_take_bit_int_eq_self) simp_all
  then show ?thesis by (simp add: sint_uint u)
qed

lemma v8_mod: "bitand32 (bitor32 raw 0) 255 = raw mod 256"
proof -
  have "raw mod 4294967296 mod 256 = raw mod 256"
    by (rule mod_mod_cancel) simp
  then show ?thesis
    by (simp add: bitand32_def bitor32_def and255 sint_take_bit8 uint_word_of_int)
qed

lemma int_and255: "(k :: int) AND 255 = k mod 256"
proof -
  have m: "(255 :: int) = mask 8" by (simp add: mask_eq_exp_minus_1)
  have "k AND mask 8 = take_bit 8 k" by (rule take_bit_eq_mask [symmetric])
  then show ?thesis unfolding m by (simp add: take_bit_eq_mod)
qed

lemma trunc32_mod256:
  "((r + 2147483648) mod 4294967296 - 2147483648) mod 256 = (r :: int) mod 256"
proof -
  define q where "q = (r + 2147483648) div 4294967296"
  have e: "(r + 2147483648) mod 4294967296 = r + 2147483648 - 4294967296 * q"
    unfolding q_def by (rule minus_mult_div_eq_mod [symmetric])
  define K where "K = - (16777216 * q)"
  have "(r + 2147483648) mod 4294967296 - 2147483648 = r + 256 * K"
    unfolding K_def e by simp
  then show ?thesis by (simp only: mod_mult_self2)
qed

text \<open>
  Claim C2. For every raw integer \<open>r\<close> and every gain \<open>g\<close>, \<open>quantize r g\<close> is
  \<open>((r truncated to 32-bit two's complement) & 255) / 128 - 1\<close> times \<open>g\<close>, with no
  clamping. The truncation is written out as arithmetic and \<open>&\<close> is the bitwise
  conjunction of integers; the masked value is \<open>r mod 256\<close>, so negative raw values
  alias. With gain 1 a raw value that is 0 modulo 256 gives exactly \<open>-1\<close> and one that
  is 255 modulo 256 gives exactly \<open>255/128 - 1\<close>. Both sample loops emit
  \<open>quantize raw gain\<close> (lemmas \<open>process_sample_fst\<close> and \<open>script_sample_result\<close>):
  the worklet with the volume parameter as gain, the ScriptProcessor loop with
  \<open>self.volume || 1.0\<close>, which is 1 for a volume of 0.
\<close>

theorem quantize_steps:
  "quantize r g =
     (real_of_int (((r + 2147483648) mod 4294967296 - 2147483648) AND 255) / 128 - 1) * g
   \<and> quantize r g = (real_of_int (r mod 256) / 128 - 1) * g
   \<and> (r mod 256 = 0 \<longrightarrow> quantize r 1 = - 1)
   \<and> (r mod 256 = 255 \<longrightarrow> quantize r 1 = 255 / 128 - 1)"
  by (simp add: quantize_def v8_mod int_and255 trunc32_mod256)

text \<open>The implications of \<open>quantize_steps\<close> at \<open>r = 512\<close> and \<open>r = -1\<close>; a gain of 4 is not clamped.\<close>

theorem quantize_steps_witness:
  "quantize 512 1 = - 1 \<and> quantize (- 1) 1 = 255 / 128 - 1 \<and> quantize (- 1) 4 = 127 / 32"
  using quantize_steps [of 512 1] quantize_steps [of "- 1" 1] quantize_steps [of "- 1" 4]
  by simp

section \<open>The WAV encoder writes what the readers decode\<close>

lemma uint_byte: "uint (word_of_int v :: byte) = v mod 256"
  by (simp add: uint_word_of_int)


lemma decode32:
  "(v::int) mod 256 + 256 * (v div 256 mod 256) + 65536 * (v div 65536 mod 256)
     + 16777216 * (v div 16777216 mod 256) = v mod 4294967296"
proof -
  have a: "v mod 65536 = v mod 256 + 256 * (v div 256 mod 256)"
    using zmod_zmult2_eq [of 256 v 256] by simp
  have b: "v mod 16777216 = v mod 65536 + 65536 * (v div 65536 mod 256)"
    using zmod_zmult2_eq [of 256 v 65536] by simp
  have c: "v mod 4294967296 = v mod 16777216 + 16777216 * (v div 16777216 mod 256)"
    using zmod_zmult2_eq [of 256 v 16777216] by simp
  show ?thesis unfolding c b a ..
qed


lemma getUint32_bytes:
  "off + 4 \<le> length view \<Longrightarrow> view ! off = word_of_int v \<Longrightarrow>
   view ! (off + 1) = word_of_int (v div 256) \<Longrightarrow>
   view ! (off + 2) = word_of_int (v div 65536) \<Longrightarrow>
   view ! (off + 3) = word_of_int (v div 16777216) \<Longrightarrow>
   getUint32 off view = Some (v mod 4294967296)"
  by (simp add: getUint32_def uint_byte decode32)


lemma Math_round_int16:
  "- 32768 \<le> Math_round (max (- 1) (min 1 x) * (if x < 0 then 32768 else 32767)) \<and>
   Math_round (max (- 1) (min 1 x) * (if x < 0 then 32768 else 32767)) < 32768"
proof -
  define s where "s = max (- 1) (min 1 x)"
  have s: "- 1 \<le> s" "s \<le> 1" by (simp_all add: s_def)
  have neg: "x < 0 \<longleftrightarrow> s < 0" by (auto simp: s_def max_def min_def)
  show ?thesis
    unfolding Math_round_def s_def [symmetric] neg
    using s by (cases "s < 0") (simp_all add: floor_less_iff le_floor_iff)
qed














section \<open>The worklet loop, one sample at a time\<close>

lemma w_catch_fallback_fields:
  "w_t (w_catch_fallback eng a b w) = w_t w"
  "w_recording (w_catch_fallback eng a b w) = w_recording w"
  "w_recordBuffer (w_catch_fallback eng a b w) = w_recordBuffer w"
  "w_recordChunkSize (w_catch_fallback eng a b w) = w_recordChunkSize w"
  "w_compiled (w_catch_fallback eng a b w) = new_Function eng ERROR_FALLBACK_FORMULA"
  by (simp_all add: w_catch_fallback_def split: option.splits)

lemma flushRecord_fields:
  "w_t (flushRecord w) = w_t w"
  "w_recording (flushRecord w) = w_recording w"
  "w_recordChunkSize (flushRecord w) = w_recordChunkSize w"
  "w_compiled (flushRecord w) = w_compiled w"
  by (simp_all add: flushRecord_def)

lemma process_sample_fst:
  "fst (process_sample eng volParam sParam inc i w) = quantize (w_raw sParam i w) (param_at volParam i)"
  by (simp add: process_sample_def w_raw_def Let_def split: option.splits prod.splits)

lemma process_sample_t:
  "w_t (snd (process_sample eng volParam sParam inc i w)) = fadd (w_t w) inc"
  by (simp add: process_sample_def Let_def w_catch_fallback_fields flushRecord_fields
      split: option.splits prod.splits)

lemma process_sample_compiled:
  "w_compiled (snd (process_sample eng volParam sParam inc i w)) =
     (case w_compiled w of
        None \<Rightarrow> None
      | Some f \<Rightarrow>
          (case f \<lfloor>w_t w\<rfloor> (param_at sParam i) (fdiv (w_t w) (param_at sParam i)) of
             None \<Rightarrow> new_Function eng ERROR_FALLBACK_FORMULA
           | Some r \<Rightarrow> Some f))"
  by (simp add: process_sample_def Let_def w_catch_fallback_fields flushRecord_fields
      split: option.splits prod.splits)

lemma process_sample_chunkSize:
  "w_recordChunkSize (snd (process_sample eng volParam sParam inc i w)) = w_recordChunkSize w"
  by (simp add: process_sample_def Let_def w_catch_fallback_fields flushRecord_fields
      split: option.splits prod.splits)

lemma process_sample_recording:
  "w_recording (snd (process_sample eng volParam sParam inc i w)) = w_recording w"
  by (simp add: process_sample_def Let_def w_catch_fallback_fields flushRecord_fields
      split: option.splits prod.splits)

lemma process_loop_Suc:
  "process_loop eng volParam sParam inc i (Suc k) w =
     (fst (process_sample eng volParam sParam inc i w) #
        fst (process_loop eng volParam sParam inc (Suc i) k
               (snd (process_sample eng volParam sParam inc i w))),
      snd (process_loop eng volParam sParam inc (Suc i) k
               (snd (process_sample eng volParam sParam inc i w))))"
  by (simp add: Let_def split: prod.splits)

lemma process_loop_length:
  "length (fst (process_loop eng volParam sParam inc i n w)) = n"
  by (induction n arbitrary: i w) (simp_all add: process_loop_Suc del: process_loop.simps(2))

lemma process_loop_t:
  "w_t (snd (process_loop eng volParam sParam inc i n w)) = clock_after n inc (w_t w)"
  by (induction n arbitrary: i w)
     (simp_all add: process_loop_Suc process_sample_t clock_after_Suc
        del: process_loop.simps(2) clock_after.simps(2))

lemma process_loop_silent:
  "w_compiled w = None \<Longrightarrow>
   w_compiled (snd (process_loop eng volParam sParam inc i n w)) = None \<and>
   (\<forall>j < n. fst (process_loop eng volParam sParam inc i n w) ! j =
            quantize 0 (param_at volParam (i + j)))"
proof (induction n arbitrary: i w)
  case 0
  then show ?case by simp
next
  case (Suc n)
  have c: "w_compiled (snd (process_sample eng volParam sParam inc i w)) = None"
    using Suc.prems by (simp add: process_sample_compiled)
  have y: "fst (process_sample eng volParam sParam inc i w) = quantize 0 (param_at volParam i)"
    using Suc.prems by (simp add: process_sample_fst w_raw_def)
  show ?case
    using Suc.IH [OF c, of "Suc i"] y
    by (auto simp add: process_loop_Suc nth_Cons' simp del: process_loop.simps(2))
qed

section \<open>The message handlers of the extension\<close>

text \<open>No handler assigns \<open>this.formula\<close>.\<close>

lemma handlers_formula:
  "(\<forall>m e e'. handleNodeMessage d eng m e = Some e' \<longrightarrow> formula e' = formula e) \<and>
   (\<forall>m e e'. postToNode d eng m e = Some e' \<longrightarrow> formula e' = formula e) \<and>
   (\<forall>m e e'. handleScriptMessage d eng m e = Some e' \<longrightarrow> formula e' = formula e)"
proof (induction d)
  case 0
  then show ?case by simp
next
  case (Suc d)
  have H: "\<And>m e e'. handleNodeMessage d eng m e = Some e' \<Longrightarrow> formula e' = formula e"
    and P: "\<And>m e e'. postToNode d eng m e = Some e' \<Longrightarrow> formula e' = formula e"
    and S: "\<And>m e e'. handleScriptMessage d eng m e = Some e' \<Longrightarrow> formula e' = formula e"
    using Suc.IH by blast+
  have 1: "formula e' = formula e" if "handleNodeMessage (Suc d) eng m e = Some e'" for m e e'
    using that by (auto simp: Let_def split: port_message.splits if_splits option.splits dest!: P)
  have 2: "formula e' = formula e" if "postToNode (Suc d) eng m e = Some e'" for m e e'
    using that by (auto split: option.splits if_splits audio_node.splits dest!: S)
  have 3: "formula e' = formula e" if "handleScriptMessage (Suc d) eng m e = Some e'" for m e e'
    using that
    by (auto simp: Let_def split: control_message.splits option.splits if_splits dest!: H)
  show ?case using 1 2 3 by blast
qed

text \<open>
  Handling a chunk, or the \<open>record off\<close> it may cause, leaves the playback state alone
  and ends with at most \<open>recordMaxSamples\<close> accumulated samples.
\<close>

lemma record_handlers_frame:
  "(\<forall>c e e'. handleNodeMessage d eng (Msg_recordChunk c) e = Some e' \<longrightarrow>
      script_frame e e' \<and> length (recordedSamples e') \<le> recordMaxSamples e') \<and>
   (\<forall>e e'. postToNode d eng (Msg_record False) e = Some e' \<longrightarrow>
      script_frame e e' \<and>
      (length (recordedSamples e') \<le> recordMaxSamples e' \<or>
       recordedSamples e' = recordedSamples e)) \<and>
   (\<forall>e e'. handleScriptMessage d eng (Msg_record False) e = Some e' \<longrightarrow>
      script_frame e e' \<and>
      (length (recordedSamples e') \<le> recordMaxSamples e' \<or>
       recordedSamples e' = recordedSamples e))"
proof (induction d)
  case 0
  then show ?case by simp
next
  case (Suc d)
  have H: "\<And>c e e'. handleNodeMessage d eng (Msg_recordChunk c) e = Some e' \<Longrightarrow>
      script_frame e e' \<and> length (recordedSamples e') \<le> recordMaxSamples e'"
    and P: "\<And>e e'. postToNode d eng (Msg_record False) e = Some e' \<Longrightarrow>
      script_frame e e' \<and>
      (length (recordedSamples e') \<le> recordMaxSamples e' \<or>
       recordedSamples e' = recordedSamples e)"
    and S: "\<And>e e'. handleScriptMessage d eng (Msg_record False) e = Some e' \<Longrightarrow>
      script_frame e e' \<and>
      (length (recordedSamples e') \<le> recordMaxSamples e' \<or>
       recordedSamples e' = recordedSamples e)"
    using Suc.IH by blast+
  have 1: "script_frame e e' \<and> length (recordedSamples e') \<le> recordMaxSamples e'"
    if "handleNodeMessage (Suc d) eng (Msg_recordChunk c) e = Some e'" for c e e'
    using that
    by (auto simp: Let_def script_frame_def split: if_splits option.splits dest!: P)
  have 2: "script_frame e e' \<and>
      (length (recordedSamples e') \<le> recordMaxSamples e' \<or>
       recordedSamples e' = recordedSamples e)"
    if "postToNode (Suc d) eng (Msg_record False) e = Some e'" for e e'
    using that
    by (auto simp: script_frame_def split: option.splits if_splits audio_node.splits dest!: S)
  have 3: "script_frame e e' \<and>
      (length (recordedSamples e') \<le> recordMaxSamples e' \<or>
       recordedSamples e' = recordedSamples e)"
    if "handleScriptMessage (Suc d) eng (Msg_record False) e = Some e'" for e e'
    using that
    by (auto simp: Let_def script_frame_def split: option.splits if_splits dest!: H)
  show ?case using 1 2 3 by blast
qed

lemma handleNodeMessage_recordChunk_frame:
  "handleNodeMessage d eng (Msg_recordChunk c) e = Some e' \<Longrightarrow> script_frame e e'"
  using record_handlers_frame by blast

lemma handleNodeMessage_recordChunk_bound:
  "handleNodeMessage d eng (Msg_recordChunk c) e = Some e' \<Longrightarrow>
   length (recordedSamples e') \<le> recordMaxSamples e'"
  using record_handlers_frame by blast

lemma handleNodeMessage_recordChunk_total:
  assumes "4 \<le> d" "length (scriptRecordBuffer e) \<le> recordMaxSamples e"
  shows "\<exists>e'. handleNodeMessage d eng (Msg_recordChunk c) e = Some e'"
proof -
  obtain k where "d = 4 + k" using assms(1) by (auto simp: le_iff_add)
  then have d: "d = Suc (Suc (Suc (Suc k)))" by simp
  show ?thesis
    using assms(2) unfolding d
    by (auto simp: Let_def split: option.splits audio_node.splits)
qed

section \<open>The ScriptProcessor loop, one sample at a time\<close>

lemma script_eval_fst: "fst (script_eval eng logicalS e) = script_raw logicalS e"
  by (simp add: script_eval_def script_raw_def split: option.splits)

lemma script_eval_snd:
  "scriptCompiledFunc (snd (script_eval eng logicalS e)) = script_next_compiled eng logicalS e"
  "script_t (snd (script_eval eng logicalS e)) = script_t e"
  "volume (snd (script_eval eng logicalS e)) = volume e"
  "scriptRecording (snd (script_eval eng logicalS e)) = scriptRecording e"
  "scriptRecordBuffer (snd (script_eval eng logicalS e)) = scriptRecordBuffer e"
  "scriptRecordChunkSize (snd (script_eval eng logicalS e)) = scriptRecordChunkSize e"
  "recordMaxSamples (snd (script_eval eng logicalS e)) = recordMaxSamples e"
  "recordedSamples (snd (script_eval eng logicalS e)) = recordedSamples e"
  "logicalSampleRate (snd (script_eval eng logicalS e)) = logicalSampleRate e"
  "script_sr (snd (script_eval eng logicalS e)) = script_sr e"
  "usingWorklet (snd (script_eval eng logicalS e)) = usingWorklet e"
  "node (snd (script_eval eng logicalS e)) = node e"
  by (simp_all add: script_eval_def script_next_compiled_def split: option.splits)

lemma script_record_total:
  assumes "4 \<le> d" "length (scriptRecordBuffer e) < recordMaxSamples e"
  shows "\<exists>e'. script_record d eng y e = Some e'"
proof (cases "scriptRecording e \<and>
    scriptRecordChunkSize e \<le> length (scriptRecordBuffer e @ [y])")
  case True
  define e2 where "e2 = e\<lparr>scriptRecordBuffer := scriptRecordBuffer e @ [y]\<rparr>"
  have "length (scriptRecordBuffer e2) \<le> recordMaxSamples e2"
    using assms(2) by (simp add: e2_def)
  from handleNodeMessage_recordChunk_total [OF assms(1) this]
  obtain e3 where "handleNodeMessage d eng (Msg_recordChunk (scriptRecordBuffer e2)) e2 = Some e3"
    by blast
  then show ?thesis using True by (simp add: script_record_def e2_def)
next
  case False
  then show ?thesis by (auto simp add: script_record_def Let_def)
qed

lemma script_record_frame:
  assumes "script_record d eng y e = Some e'"
  shows "script_frame e e'"
    and "scriptRecordBuffer e' = [] \<or> scriptRecordBuffer e' = scriptRecordBuffer e \<or>
         (scriptRecordBuffer e' = scriptRecordBuffer e @ [y] \<and>
          length (scriptRecordBuffer e') < scriptRecordChunkSize e)"
proof -
  show "script_frame e e'"
    using assms
    by (auto simp: script_record_def Let_def script_frame_def split: if_splits option.splits
        dest!: handleNodeMessage_recordChunk_frame)
  show "scriptRecordBuffer e' = [] \<or> scriptRecordBuffer e' = scriptRecordBuffer e \<or>
         (scriptRecordBuffer e' = scriptRecordBuffer e @ [y] \<and>
          length (scriptRecordBuffer e') < scriptRecordChunkSize e)"
    using assms
    by (auto simp: script_record_def Let_def split: if_splits option.splits)
qed

lemma script_sample_total:
  assumes "4 \<le> d" "length (scriptRecordBuffer e) < recordMaxSamples e"
  shows "\<exists>y e'. script_sample d eng logicalS inc e = Some (y, e')"
proof -
  obtain raw e1 where ev: "script_eval eng logicalS e = (raw, e1)" by (cases "script_eval eng logicalS e")
  have "length (scriptRecordBuffer e1) < recordMaxSamples e1"
    using assms(2) script_eval_snd(5,7) [of eng logicalS e] ev by simp
  from script_record_total [OF assms(1) this]
  obtain e4 where "script_record d eng
      (quantize raw (if volume e1 = 0 then 1 else volume e1)) e1 = Some e4"
    by blast
  then show ?thesis by (simp add: script_sample_def ev Let_def)
qed

lemma script_sample_result:
  assumes "script_sample d eng logicalS inc e = Some (y, e')"
  shows "y = quantize (script_raw logicalS e) (script_gain e)"
    and "script_t e' = fadd (script_t e) inc"
    and "scriptCompiledFunc e' = script_next_compiled eng logicalS e"
    and "scriptRecordChunkSize e' = scriptRecordChunkSize e"
    and "recordMaxSamples e' = recordMaxSamples e"
    and "volume e' = volume e"
    and "logicalSampleRate e' = logicalSampleRate e"
    and "script_sr e' = script_sr e"
    and "scriptRecordBuffer e' = [] \<or> scriptRecordBuffer e' = scriptRecordBuffer e \<or>
         (scriptRecordBuffer e' = scriptRecordBuffer e @ [y] \<and>
          length (scriptRecordBuffer e') < scriptRecordChunkSize e)"
proof -
  obtain raw e1 where ev: "script_eval eng logicalS e = (raw, e1)" by (cases "script_eval eng logicalS e")
  have raw: "raw = script_raw logicalS e" using script_eval_fst [of eng logicalS e] ev by simp
  have e1: "e1 = snd (script_eval eng logicalS e)" using ev by simp
  define s where "s = quantize raw (if volume e1 = 0 then 1 else volume e1)"
  from assms obtain e4 where r: "script_record d eng s e1 = Some e4"
    and y: "y = s" and e': "e' = e4\<lparr>script_t := fadd (script_t e4) inc\<rparr>"
    by (auto simp: script_sample_def ev s_def Let_def split: option.splits)
  note f = script_record_frame [OF r]
  show "y = quantize (script_raw logicalS e) (script_gain e)"
    by (simp add: y s_def raw script_gain_def e1 script_eval_snd)
  show "script_t e' = fadd (script_t e) inc"
    using f(1) by (simp add: e' script_frame_def e1 script_eval_snd)
  show "scriptCompiledFunc e' = script_next_compiled eng logicalS e"
    using f(1) by (simp add: e' script_frame_def e1 script_eval_snd)
  show "scriptRecordChunkSize e' = scriptRecordChunkSize e"
    using f(1) by (simp add: e' script_frame_def e1 script_eval_snd)
  show "recordMaxSamples e' = recordMaxSamples e"
    using f(1) by (simp add: e' script_frame_def e1 script_eval_snd)
  show "volume e' = volume e"
    using f(1) by (simp add: e' script_frame_def e1 script_eval_snd)
  show "logicalSampleRate e' = logicalSampleRate e"
    using f(1) by (simp add: e' script_frame_def e1 script_eval_snd)
  show "script_sr e' = script_sr e"
    using f(1) by (simp add: e' script_frame_def e1 script_eval_snd)
  show "scriptRecordBuffer e' = [] \<or> scriptRecordBuffer e' = scriptRecordBuffer e \<or>
         (scriptRecordBuffer e' = scriptRecordBuffer e @ [y] \<and>
          length (scriptRecordBuffer e') < scriptRecordChunkSize e)"
    using f(2) by (simp add: e' y e1 script_eval_snd)
qed

section \<open>Whole blocks\<close>

lemma process_loop_add:
  "process_loop eng volParam sParam inc i (a + b) w =
     (fst (process_loop eng volParam sParam inc i a w) @
        fst (process_loop eng volParam sParam inc (i + a) b
               (snd (process_loop eng volParam sParam inc i a w))),
      snd (process_loop eng volParam sParam inc (i + a) b
               (snd (process_loop eng volParam sParam inc i a w))))"
proof (induction a arbitrary: i w)
  case 0
  then show ?case by simp
next
  case (Suc a)
  have "Suc a + b = Suc (a + b)" by simp
  then show ?case
    by (simp only: process_loop_Suc Suc.IH fst_conv snd_conv append_Cons add_Suc_shift add_Suc_right)
qed

lemma process_loop_outputs:
  assumes "w_compiled w = Some f" "\<forall>a b c. f a b c \<noteq> None" "j < n"
  shows "\<exists>r. f \<lfloor>clock_after j inc (w_t w)\<rfloor> (param_at sParam (i + j))
               (fdiv (clock_after j inc (w_t w)) (param_at sParam (i + j))) = Some r \<and>
             fst (process_loop eng volParam sParam inc i n w) ! j =
               quantize r (param_at volParam (i + j))"
  using assms
proof (induction n arbitrary: i w j)
  case 0
  then show ?case by simp
next
  case (Suc n)
  let ?w' = "snd (process_sample eng volParam sParam inc i w)"
  obtain r where r: "f \<lfloor>w_t w\<rfloor> (param_at sParam i) (fdiv (w_t w) (param_at sParam i)) = Some r"
    using Suc.prems(2) by (meson option.exhaust)
  have c: "w_compiled ?w' = Some f"
    using Suc.prems(1) r by (simp add: process_sample_compiled)
  have t: "w_t ?w' = fadd (w_t w) inc" by (rule process_sample_t)
  have y: "fst (process_sample eng volParam sParam inc i w) = quantize r (param_at volParam i)"
    using Suc.prems(1) r by (simp add: process_sample_fst w_raw_def)
  show ?case
  proof (cases j)
    case 0
    then show ?thesis using r y by (simp add: process_loop_Suc del: process_loop.simps(2))
  next
    case (Suc j')
    then have "j' < n" using Suc.prems(3) by simp
    from Suc.IH [OF c Suc.prems(2) this, of "Suc i"]
    show ?thesis
      using Suc
      by (simp add: process_loop_Suc t clock_after_Suc
          del: process_loop.simps(2) clock_after.simps(2))
  qed
qed

lemma script_sample_ok:
  assumes "script_sample d eng logicalS inc e = Some (y, e')" "script_ok e"
  shows "script_ok e'"
  using script_sample_result(4,5,9) [OF assms(1)] assms(2)
  by (auto simp: script_ok_def)

lemma processFunc_loop_total:
  assumes "4 \<le> d" "script_ok e"
  shows "\<exists>ys e'. processFunc_loop d eng logicalS inc n e = Some (ys, e')"
  using assms(2)
proof (induction n arbitrary: e)
  case 0
  then show ?case by simp
next
  case (Suc n)
  from script_sample_total [OF assms(1), of e eng logicalS inc] Suc.prems
  obtain y e1 where s: "script_sample d eng logicalS inc e = Some (y, e1)"
    by (auto simp: script_ok_def)
  from Suc.IH [OF script_sample_ok [OF s Suc.prems]]
  obtain ys e' where "processFunc_loop d eng logicalS inc n e1 = Some (ys, e')" by blast
  then show ?case by (simp add: s)
qed

lemma processFunc_loop_result:
  assumes "processFunc_loop d eng logicalS inc n e = Some (ys, e')"
  shows "length ys = n \<and> script_t e' = clock_after n inc (script_t e) \<and>
         volume e' = volume e \<and> logicalSampleRate e' = logicalSampleRate e \<and>
         script_sr e' = script_sr e"
  using assms
proof (induction n arbitrary: e ys)
  case 0
  then show ?case by simp
next
  case (Suc n)
  from Suc.prems obtain y e1 where s: "script_sample d eng logicalS inc e = Some (y, e1)"
    by (auto split: option.splits)
  from Suc.prems obtain ys' where l: "processFunc_loop d eng logicalS inc n e1 = Some (ys', e')"
    and ys: "ys = y # ys'"
    by (auto simp: s split: option.splits)
  show ?case
    using Suc.IH [OF l] script_sample_result(2,6,7,8) [OF s] ys
    by (simp add: clock_after_Suc del: clock_after.simps(2))
qed

lemma processFunc_loop_silent:
  assumes "processFunc_loop d eng logicalS inc n e = Some (ys, e')" "scriptCompiledFunc e = None"
  shows "scriptCompiledFunc e' = None \<and> (\<forall>j < n. ys ! j = quantize 0 (script_gain e))"
  using assms
proof (induction n arbitrary: e ys)
  case 0
  then show ?case by simp
next
  case (Suc n)
  from Suc.prems obtain y e1 where s: "script_sample d eng logicalS inc e = Some (y, e1)"
    by (auto split: option.splits)
  from Suc.prems obtain ys' where l: "processFunc_loop d eng logicalS inc n e1 = Some (ys', e')"
    and ys: "ys = y # ys'"
    by (auto simp: s split: option.splits)
  have c: "scriptCompiledFunc e1 = None"
    using script_sample_result(3) [OF s] Suc.prems(2) by (simp add: script_next_compiled_def)
  have y: "y = quantize 0 (script_gain e)"
    using script_sample_result(1) [OF s] Suc.prems(2) by (simp add: script_raw_def)
  have g: "script_gain e1 = script_gain e"
    using script_sample_result(6) [OF s] by (simp add: script_gain_def)
  show ?case
    using Suc.IH [OF l c] y ys g by (auto simp: nth_Cons')
qed

lemma processFunc_loop_outputs:
  assumes "processFunc_loop d eng logicalS inc n e = Some (ys, e')"
    "scriptCompiledFunc e = Some f" "\<forall>a b c. f a b c \<noteq> None" "j < n"
  shows "\<exists>r. f \<lfloor>clock_after j inc (script_t e)\<rfloor> logicalS
               (fdiv (clock_after j inc (script_t e)) logicalS) = Some r \<and>
             ys ! j = quantize r (script_gain e)"
  using assms
proof (induction n arbitrary: e ys j)
  case 0
  then show ?case by simp
next
  case (Suc n)
  from Suc.prems(1) obtain y e1 where s: "script_sample d eng logicalS inc e = Some (y, e1)"
    by (auto split: option.splits)
  from Suc.prems(1) obtain ys' where l: "processFunc_loop d eng logicalS inc n e1 = Some (ys', e')"
    and ys: "ys = y # ys'"
    by (auto simp: s split: option.splits)
  obtain r where r: "f \<lfloor>script_t e\<rfloor> logicalS (fdiv (script_t e) logicalS) = Some r"
    using Suc.prems(3) by (meson option.exhaust)
  have c: "scriptCompiledFunc e1 = Some f"
    using script_sample_result(3) [OF s] Suc.prems(2) r by (simp add: script_next_compiled_def)
  have y: "y = quantize r (script_gain e)"
    using script_sample_result(1) [OF s] Suc.prems(2) r by (simp add: script_raw_def)
  have g: "script_gain e1 = script_gain e"
    using script_sample_result(6) [OF s] by (simp add: script_gain_def)
  have t: "script_t e1 = fadd (script_t e) inc" by (rule script_sample_result(2) [OF s])
  show ?case
  proof (cases j)
    case 0
    then show ?thesis using r y ys by simp
  next
    case (Suc j')
    then have "j' < n" using Suc.prems(4) by simp
    from Suc.IH [OF l c Suc.prems(3) this]
    show ?thesis using Suc ys g by (simp add: t clock_after_Suc del: clock_after.simps(2))
  qed
qed

lemma processFunc_loop_add:
  "processFunc_loop d eng logicalS inc (a + b) e =
     (case processFunc_loop d eng logicalS inc a e of
        None \<Rightarrow> None
      | Some (xs, e1) \<Rightarrow>
          (case processFunc_loop d eng logicalS inc b e1 of
             None \<Rightarrow> None
           | Some (ys, e2) \<Rightarrow> Some (xs @ ys, e2)))"
proof (induction a arbitrary: e)
  case 0
  then show ?case by (simp split: option.splits)
next
  case (Suc a)
  show ?case
    by (simp add: Suc.IH split: option.splits prod.splits)
qed

lemma process_Some:
  "process eng P (Some n) volParam sParam w =
     process_loop eng volParam sParam (fdiv (sParam ! 0) P) 0 n w"
  by (simp add: process_def)

lemma param_at_const:
  assumes "sParam = [L] \<or> sParam = replicate n L" "j < n"
  shows "param_at sParam j = L" "sParam ! 0 = L"
  using assms by (auto simp: param_at_def)

lemma processFunc_logicalS:
  "1 \<le> logicalSampleRate e \<Longrightarrow>
   processFunc d eng n e =
     processFunc_loop d eng (logicalSampleRate e) (fdiv (logicalSampleRate e) (script_sr e)) n e"
  by (simp add: processFunc_def Let_def)

lemma new_Function_fallback:
  "new_Function eng ERROR_FALLBACK_FORMULA =
     eng ''return (t*(t^t+(t>>15|1)^(t-1280^t)>>10))|0;''"
  by (simp add: new_Function_def ERROR_FALLBACK_FORMULA_def)

section \<open>A block, split at one of its samples\<close>

lemma process_loop_split:
  assumes "j < n"
  shows "fst (process_loop eng volParam sParam inc 0 n w) ! j =
           fst (process_sample eng volParam sParam inc j
                  (snd (process_loop eng volParam sParam inc 0 j w)))"
    and "snd (process_loop eng volParam sParam inc 0 (Suc j) w) =
           snd (process_sample eng volParam sParam inc j
                  (snd (process_loop eng volParam sParam inc 0 j w)))"
    and "snd (process_loop eng volParam sParam inc 0 n w) =
           snd (process_loop eng volParam sParam inc (Suc j) (n - Suc j)
                  (snd (process_loop eng volParam sParam inc 0 (Suc j) w)))"
    and "j < i \<Longrightarrow> i < n \<Longrightarrow>
         fst (process_loop eng volParam sParam inc 0 n w) ! i =
           fst (process_loop eng volParam sParam inc (Suc j) (n - Suc j)
                  (snd (process_loop eng volParam sParam inc 0 (Suc j) w))) ! (i - Suc j)"
proof -
  let ?wj = "snd (process_loop eng volParam sParam inc 0 j w)"
  have one: "process_loop eng volParam sParam inc 0 (j + 1) w =
      (fst (process_loop eng volParam sParam inc 0 j w) @
         [fst (process_sample eng volParam sParam inc j ?wj)],
       snd (process_sample eng volParam sParam inc j ?wj))"
    unfolding process_loop_add by (simp add: Let_def split: prod.splits)
  show s1: "snd (process_loop eng volParam sParam inc 0 (Suc j) w) =
           snd (process_sample eng volParam sParam inc j ?wj)"
    using one by simp
  have n: "n = Suc j + (n - Suc j)" using assms by simp
  have l: "length (fst (process_loop eng volParam sParam inc 0 (Suc j) w)) = Suc j"
    by (rule process_loop_length)
  have whole: "process_loop eng volParam sParam inc 0 n w =
      (fst (process_loop eng volParam sParam inc 0 (Suc j) w) @
         fst (process_loop eng volParam sParam inc (Suc j) (n - Suc j)
                (snd (process_loop eng volParam sParam inc 0 (Suc j) w))),
       snd (process_loop eng volParam sParam inc (Suc j) (n - Suc j)
                (snd (process_loop eng volParam sParam inc 0 (Suc j) w))))"
    by (subst n, subst process_loop_add) simp
  show "snd (process_loop eng volParam sParam inc 0 n w) =
           snd (process_loop eng volParam sParam inc (Suc j) (n - Suc j)
                  (snd (process_loop eng volParam sParam inc 0 (Suc j) w)))"
    by (subst whole) simp
  have lj: "length (fst (process_loop eng volParam sParam inc 0 j w)) = j"
    by (rule process_loop_length)
  have "fst (process_loop eng volParam sParam inc 0 n w) ! j =
          fst (process_loop eng volParam sParam inc 0 (Suc j) w) ! j"
    by (subst whole) (simp add: nth_append l del: process_loop.simps(2))
  also have "\<dots> = fst (process_sample eng volParam sParam inc j ?wj)"
    using one lj by (simp add: nth_append del: process_loop.simps(2))
  finally show "fst (process_loop eng volParam sParam inc 0 n w) ! j =
           fst (process_sample eng volParam sParam inc j ?wj)" .
  show "fst (process_loop eng volParam sParam inc 0 n w) ! i =
           fst (process_loop eng volParam sParam inc (Suc j) (n - Suc j)
                  (snd (process_loop eng volParam sParam inc 0 (Suc j) w))) ! (i - Suc j)"
    if "j < i" "i < n"
    using that by (subst whole) (simp add: nth_append l del: process_loop.simps(2))
qed

lemma process_loop_compiled_total:
  assumes "w_compiled w = Some f" "\<forall>a b c. f a b c \<noteq> None"
  shows "w_compiled (snd (process_loop eng volParam sParam inc i n w)) = Some f"
  using assms(1)
proof (induction n arbitrary: i w)
  case 0
  then show ?case by simp
next
  case (Suc n)
  obtain r where r: "f \<lfloor>w_t w\<rfloor> (param_at sParam i) (fdiv (w_t w) (param_at sParam i)) = Some r"
    using assms(2) by (meson option.exhaust)
  have "w_compiled (snd (process_sample eng volParam sParam inc i w)) = Some f"
    using Suc.prems r by (simp add: process_sample_compiled)
  from Suc.IH [OF this] show ?case
    by (simp add: process_loop_Suc del: process_loop.simps(2))
qed

lemma processFunc_unfold:
  "processFunc d eng n e =
     processFunc_loop d eng
       (max 1 (if logicalSampleRate e = 0 then 8000 else logicalSampleRate e))
       (fdiv (max 1 (if logicalSampleRate e = 0 then 8000 else logicalSampleRate e)) (script_sr e))
       n e"
  by (simp add: processFunc_def Let_def)

lemma processFunc_loop_split:
  assumes "processFunc_loop d eng L inc n e = Some (outs, e')" "j < n"
  shows "\<exists>ysj ej y e1 rest.
           processFunc_loop d eng L inc j e = Some (ysj, ej) \<and> length ysj = j \<and>
           script_sample d eng L inc ej = Some (y, e1) \<and>
           processFunc_loop d eng L inc (Suc j) e = Some (ysj @ [y], e1) \<and>
           processFunc_loop d eng L inc (n - Suc j) e1 = Some (rest, e') \<and>
           outs = ysj @ y # rest"
proof -
  have n: "n = j + Suc (n - Suc j)" using assms(2) by simp
  from assms(1) have a: "processFunc_loop d eng L inc (j + Suc (n - Suc j)) e = Some (outs, e')"
    using n by simp
  from a obtain ysj ej where j: "processFunc_loop d eng L inc j e = Some (ysj, ej)"
    unfolding processFunc_loop_add by (auto split: option.splits)
  from a j obtain zs where z: "processFunc_loop d eng L inc (Suc (n - Suc j)) ej = Some (zs, e')"
    and o: "outs = ysj @ zs"
    unfolding processFunc_loop_add by (auto split: option.splits)
  from z obtain y e1 where s: "script_sample d eng L inc ej = Some (y, e1)"
    by (auto split: option.splits)
  from z s obtain rest where r: "processFunc_loop d eng L inc (n - Suc j) e1 = Some (rest, e')"
    and zs: "zs = y # rest"
    by (auto split: option.splits)
  have l: "length ysj = j" using processFunc_loop_result [OF j] by simp
  have "processFunc_loop d eng L inc (j + 1) e = Some (ysj @ [y], e1)"
    unfolding processFunc_loop_add using j s by simp
  then have "processFunc_loop d eng L inc (Suc j) e = Some (ysj @ [y], e1)" by simp
  with j l s r o zs show ?thesis by blast
qed

lemma processFunc_loop_compiled_total:
  assumes "processFunc_loop d eng L inc n e = Some (ys, e')"
    "scriptCompiledFunc e = Some f" "\<forall>a b c. f a b c \<noteq> None"
  shows "scriptCompiledFunc e' = Some f"
  using assms(1,2)
proof (induction n arbitrary: e ys)
  case 0
  then show ?case by simp
next
  case (Suc n)
  from Suc.prems(1) obtain y e1 where s: "script_sample d eng L inc e = Some (y, e1)"
    by (auto split: option.splits)
  from Suc.prems(1) obtain ys' where l: "processFunc_loop d eng L inc n e1 = Some (ys', e')"
    by (auto simp: s split: option.splits)
  obtain r where r: "f \<lfloor>script_t e\<rfloor> L (fdiv (script_t e) L) = Some r"
    using assms(3) by (meson option.exhaust)
  have c: "scriptCompiledFunc e1 = Some f"
    using script_sample_result(3) [OF s] Suc.prems(2) r by (simp add: script_next_compiled_def)
  show ?case by (rule Suc.IH [OF l c])
qed

lemma processFunc_loop_ok:
  assumes "processFunc_loop d eng L inc n e = Some (ys, e')" "script_ok e"
  shows "script_ok e'"
  using assms
proof (induction n arbitrary: e ys)
  case 0
  then show ?case by simp
next
  case (Suc n)
  from Suc.prems(1) obtain y e1 where s: "script_sample d eng L inc e = Some (y, e1)"
    by (auto split: option.splits)
  from Suc.prems(1) obtain ys' where l: "processFunc_loop d eng L inc n e1 = Some (ys', e')"
    by (auto simp: s split: option.splits)
  show ?case by (rule Suc.IH [OF l script_sample_ok [OF s Suc.prems(2)]])
qed

section \<open>Run-time failures of the compiled function\<close>

lemma process_throw:
  assumes wj_def: "wj = snd (process_loop eng volParam sParam inc 0 j w)"
    and outs_def: "outs = fst (process_loop eng volParam sParam inc 0 n w)"
    and w'_def: "w' = snd (process_loop eng volParam sParam inc 0 n w)"
    and j: "j < n" and c: "w_compiled wj = Some f"
    and t: "f \<lfloor>w_t wj\<rfloor> (param_at sParam j) (fdiv (w_t wj) (param_at sParam j)) = None"
  shows "outs ! j = quantize 0 (param_at volParam j)"
    and "w_compiled (snd (process_loop eng volParam sParam inc 0 (Suc j) w)) =
           eng ''return (t*(t^t+(t>>15|1)^(t-1280^t)>>10))|0;''"
    and "eng ''return (t*(t^t+(t>>15|1)^(t-1280^t)>>10))|0;'' = Some g \<Longrightarrow> Suc j < n \<Longrightarrow>
         outs ! Suc j =
           quantize (case g \<lfloor>fadd (w_t wj) inc\<rfloor> (param_at sParam (Suc j))
                            (fdiv (fadd (w_t wj) inc) (param_at sParam (Suc j))) of
                       Some r \<Rightarrow> r | None \<Rightarrow> 0)
             (param_at volParam (Suc j))"
    and "eng ''return (t*(t^t+(t>>15|1)^(t-1280^t)>>10))|0;'' = Some g \<Longrightarrow>
         \<forall>a b c. g a b c \<noteq> None \<Longrightarrow>
         w_compiled w' = Some g \<and>
         (\<forall>i. j < i \<and> i < n \<longrightarrow>
            (\<exists>r. g \<lfloor>clock_after (i - j) inc (w_t wj)\<rfloor> (param_at sParam i)
                    (fdiv (clock_after (i - j) inc (w_t wj)) (param_at sParam i)) = Some r \<and>
                  outs ! i = quantize r (param_at volParam i)))"
    and "eng ''return (t*(t^t+(t>>15|1)^(t-1280^t)>>10))|0;'' = None \<Longrightarrow>
         w_compiled w' = None \<and>
         (\<forall>i. j < i \<and> i < n \<longrightarrow> outs ! i = quantize 0 (param_at volParam i))"
proof -
  let ?F = "''return (t*(t^t+(t>>15|1)^(t-1280^t)>>10))|0;''"
  define w1 where "w1 = snd (process_loop eng volParam sParam inc 0 (Suc j) w)"
  note sp = process_loop_split [OF j, where eng = eng and volParam = volParam and sParam = sParam and inc = inc and w = w]
  have w1: "w1 = snd (process_sample eng volParam sParam inc j wj)"
    unfolding w1_def wj_def by (rule sp(2))
  have c1: "w_compiled w1 = eng ?F"
    unfolding w1 using c t by (simp add: process_sample_compiled new_Function_fallback)
  have t1: "w_t w1 = fadd (w_t wj) inc"
    unfolding w1 by (rule process_sample_t)
  have w': "w' = snd (process_loop eng volParam sParam inc (Suc j) (n - Suc j) w1)"
    unfolding w'_def w1_def by (rule sp(3))
  have later: "outs ! i = fst (process_loop eng volParam sParam inc (Suc j) (n - Suc j) w1) ! (i - Suc j)"
    if "j < i" "i < n" for i
    unfolding outs_def w1_def using that by (rule sp(4))
  show "outs ! j = quantize 0 (param_at volParam j)"
    unfolding outs_def sp(1) wj_def [symmetric]
    using c t by (simp add: process_sample_fst w_raw_def)
  show "w_compiled (snd (process_loop eng volParam sParam inc 0 (Suc j) w)) = eng ?F"
    using c1 by (simp add: w1_def)
  show "outs ! Suc j =
           quantize (case g \<lfloor>fadd (w_t wj) inc\<rfloor> (param_at sParam (Suc j))
                            (fdiv (fadd (w_t wj) inc) (param_at sParam (Suc j))) of
                       Some r \<Rightarrow> r | None \<Rightarrow> 0)
             (param_at volParam (Suc j))"
    if g: "eng ?F = Some g" and n: "Suc j < n"
  proof -
    have "outs ! Suc j = fst (process_sample eng volParam sParam inc (Suc j) w1)"
      unfolding outs_def w1_def by (rule process_loop_split(1) [OF n])
    then show ?thesis
      using c1 g t1 by (simp add: process_sample_fst w_raw_def split: option.splits)
  qed
  show "w_compiled w' = Some g \<and>
         (\<forall>i. j < i \<and> i < n \<longrightarrow>
            (\<exists>r. g \<lfloor>clock_after (i - j) inc (w_t wj)\<rfloor> (param_at sParam i)
                    (fdiv (clock_after (i - j) inc (w_t wj)) (param_at sParam i)) = Some r \<and>
                  outs ! i = quantize r (param_at volParam i)))"
    if g: "eng ?F = Some g" and tot: "\<forall>a b c. g a b c \<noteq> None"
  proof (intro conjI allI impI)
    have cg: "w_compiled w1 = Some g" using c1 g by simp
    show "w_compiled w' = Some g"
      unfolding w' by (rule process_loop_compiled_total [OF cg tot])
    fix i assume i: "j < i \<and> i < n"
    then have k: "i - Suc j < n - Suc j" by arith
    have ix: "Suc j + (i - Suc j) = i" using i by arith
    have ck: "clock_after (i - Suc j) inc (w_t w1) = clock_after (i - j) inc (w_t wj)"
    proof -
      have "Suc (i - Suc j) = i - j" using i by arith
      then show ?thesis unfolding t1 clock_after_Suc [symmetric] by simp
    qed
    from process_loop_outputs [OF cg tot k, where inc = inc and sParam = sParam and i = "Suc j" and eng = eng and volParam = volParam]
    show "\<exists>r. g \<lfloor>clock_after (i - j) inc (w_t wj)\<rfloor> (param_at sParam i)
                    (fdiv (clock_after (i - j) inc (w_t wj)) (param_at sParam i)) = Some r \<and>
                  outs ! i = quantize r (param_at volParam i)"
      unfolding ix ck using later [of i] i by simp
  qed
  show "w_compiled w' = None \<and>
         (\<forall>i. j < i \<and> i < n \<longrightarrow> outs ! i = quantize 0 (param_at volParam i))"
    if g: "eng ?F = None"
  proof (intro conjI allI impI)
    have cn: "w_compiled w1 = None" using c1 g by simp
    note s = process_loop_silent [OF cn, where eng = eng and volParam = volParam and sParam = sParam and inc = inc and i = "Suc j" and n = "n - Suc j"]
    show "w_compiled w' = None" unfolding w' using s by simp
    fix i assume i: "j < i \<and> i < n"
    then have k: "i - Suc j < n - Suc j" by arith
    have ix: "Suc j + (i - Suc j) = i" using i by arith
    from s k have "fst (process_loop eng volParam sParam inc (Suc j) (n - Suc j) w1) ! (i - Suc j)
        = quantize 0 (param_at volParam (Suc j + (i - Suc j)))" by blast
    then show "outs ! i = quantize 0 (param_at volParam i)"
      unfolding ix using later [of i] i by simp
  qed
qed

lemma processFunc_loop_first:
  assumes "processFunc_loop d eng L inc n e = Some (ys, e')" "0 < n"
  shows "ys ! 0 = quantize (script_raw L e) (script_gain e)"
proof -
  from assms(2) obtain k where n: "n = Suc k" by (cases n) simp_all
  from assms(1) obtain y e1 where s: "script_sample d eng L inc e = Some (y, e1)"
    unfolding n by (auto split: option.splits)
  from assms(1) s obtain rest where "ys = y # rest"
    unfolding n by (auto split: option.splits)
  then show ?thesis using script_sample_result(1) [OF s] by simp
qed

lemma processFunc_throw:
  assumes d: "4 \<le> d" and ok: "script_ok e" and j: "j < n"
    and pj: "processFunc_loop d eng L inc j e = Some (ysj, ej)"
    and c: "scriptCompiledFunc ej = Some f"
    and t: "f \<lfloor>script_t ej\<rfloor> L (fdiv (script_t ej) L) = None"
  shows "\<exists>outs e'. processFunc_loop d eng L inc n e = Some (outs, e') \<and> length outs = n \<and>
      script_ok e' \<and> outs ! j = quantize 0 (script_gain e) \<and>
      (\<forall>g. eng ''return (t*(t^t+(t>>15|1)^(t-1280^t)>>10))|0;'' = Some g \<longrightarrow>
         (\<exists>ys1 e1. processFunc_loop d eng L inc (Suc j) e = Some (ys1, e1) \<and>
                    scriptCompiledFunc e1 = Some g) \<and>
         (Suc j < n \<longrightarrow>
            outs ! Suc j =
              quantize (case g \<lfloor>fadd (script_t ej) inc\<rfloor> L (fdiv (fadd (script_t ej) inc) L) of
                          Some r \<Rightarrow> r | None \<Rightarrow> 0)
                (script_gain e)) \<and>
         ((\<forall>a b c. g a b c \<noteq> None) \<longrightarrow>
            scriptCompiledFunc e' = Some g \<and>
            (\<forall>i. j < i \<and> i < n \<longrightarrow>
               (\<exists>r. g \<lfloor>clock_after (i - j) inc (script_t ej)\<rfloor> L
                       (fdiv (clock_after (i - j) inc (script_t ej)) L) = Some r \<and>
                     outs ! i = quantize r (script_gain e))))) \<and>
      (eng ''return (t*(t^t+(t>>15|1)^(t-1280^t)>>10))|0;'' = None \<longrightarrow>
         scriptCompiledFunc e' = None \<and>
         (\<forall>i. j < i \<and> i < n \<longrightarrow> outs ! i = quantize 0 (script_gain e)))"
proof -
  let ?F = "''return (t*(t^t+(t>>15|1)^(t-1280^t)>>10))|0;''"
  from processFunc_loop_total [OF d ok]
  obtain outs e' where w: "processFunc_loop d eng L inc n e = Some (outs, e')" by blast
  from processFunc_loop_split [OF w j] pj
  obtain y e1 rest where s: "script_sample d eng L inc ej = Some (y, e1)"
    and lj: "length ysj = j"
    and sj: "processFunc_loop d eng L inc (Suc j) e = Some (ysj @ [y], e1)"
    and r: "processFunc_loop d eng L inc (n - Suc j) e1 = Some (rest, e')"
    and o: "outs = ysj @ y # rest"
    by auto
  have len: "length outs = n" using processFunc_loop_result [OF w] by simp
  have ok': "script_ok e'" by (rule processFunc_loop_ok [OF w ok])
  have vj: "volume ej = volume e" using processFunc_loop_result [OF pj] by simp
  have gj: "script_gain ej = script_gain e" by (simp add: script_gain_def vj)
  have g1: "script_gain e1 = script_gain e"
    using script_sample_result(6) [OF s] by (simp add: script_gain_def vj)
  have y: "y = quantize 0 (script_gain e)"
    using script_sample_result(1) [OF s] c t gj by (simp add: script_raw_def)
  have c1: "scriptCompiledFunc e1 = eng ?F"
    using script_sample_result(3) [OF s] c t
    by (simp add: script_next_compiled_def new_Function_fallback)
  have t1: "script_t e1 = fadd (script_t ej) inc" by (rule script_sample_result(2) [OF s])
  have oj: "outs ! j = quantize 0 (script_gain e)" using o lj y by (simp add: nth_append)
  have later: "outs ! i = rest ! (i - Suc j)" if "j < i" for i
  proof -
    from that obtain k where k: "i = Suc j + k" using less_iff_Suc_add by auto
    have "outs = (ysj @ [y]) @ rest" using o by simp
    then have "outs ! (length (ysj @ [y]) + k) = rest ! k" by (simp only: nth_append_length_plus)
    then show ?thesis using k lj by simp
  qed
  have some: "(\<exists>ys1 e1. processFunc_loop d eng L inc (Suc j) e = Some (ys1, e1) \<and>
                    scriptCompiledFunc e1 = Some g) \<and>
         (Suc j < n \<longrightarrow>
            outs ! Suc j =
              quantize (case g \<lfloor>fadd (script_t ej) inc\<rfloor> L (fdiv (fadd (script_t ej) inc) L) of
                          Some r \<Rightarrow> r | None \<Rightarrow> 0)
                (script_gain e)) \<and>
         ((\<forall>a b c. g a b c \<noteq> None) \<longrightarrow>
            scriptCompiledFunc e' = Some g \<and>
            (\<forall>i. j < i \<and> i < n \<longrightarrow>
               (\<exists>r. g \<lfloor>clock_after (i - j) inc (script_t ej)\<rfloor> L
                       (fdiv (clock_after (i - j) inc (script_t ej)) L) = Some r \<and>
                     outs ! i = quantize r (script_gain e))))"
    if g: "eng ?F = Some g" for g
  proof (intro conjI impI allI)
    have cg: "scriptCompiledFunc e1 = Some g" using c1 g by simp
    show "\<exists>ys1 e1. processFunc_loop d eng L inc (Suc j) e = Some (ys1, e1) \<and>
                    scriptCompiledFunc e1 = Some g"
      using sj cg by blast
    show "outs ! Suc j =
              quantize (case g \<lfloor>fadd (script_t ej) inc\<rfloor> L (fdiv (fadd (script_t ej) inc) L) of
                          Some r \<Rightarrow> r | None \<Rightarrow> 0)
                (script_gain e)"
      if n: "Suc j < n"
    proof -
      have "0 < n - Suc j" using n by simp
      from processFunc_loop_first [OF r this]
      have "rest ! 0 = quantize (script_raw L e1) (script_gain e1)" .
      moreover have "outs ! Suc j = rest ! 0" using later [of "Suc j"] by simp
      ultimately show ?thesis
        using cg t1 g1 by (simp add: script_raw_def split: option.splits)
    qed
    show "scriptCompiledFunc e' = Some g" if tot: "\<forall>a b c. g a b c \<noteq> None"
      by (rule processFunc_loop_compiled_total [OF r cg tot])
    show "\<exists>r. g \<lfloor>clock_after (i - j) inc (script_t ej)\<rfloor> L
                       (fdiv (clock_after (i - j) inc (script_t ej)) L) = Some r \<and>
                     outs ! i = quantize r (script_gain e)"
      if tot: "\<forall>a b c. g a b c \<noteq> None" and i: "j < i \<and> i < n" for i
    proof -
      have k: "i - Suc j < n - Suc j" using i by arith
      have ck: "clock_after (i - Suc j) inc (script_t e1) = clock_after (i - j) inc (script_t ej)"
      proof -
        have "Suc (i - Suc j) = i - j" using i by arith
        then show ?thesis unfolding t1 clock_after_Suc [symmetric] by simp
      qed
      from processFunc_loop_outputs [OF r cg tot k]
      show ?thesis unfolding ck g1 using later [of i] i by simp
    qed
  qed
  have none: "scriptCompiledFunc e' = None \<and>
         (\<forall>i. j < i \<and> i < n \<longrightarrow> outs ! i = quantize 0 (script_gain e))"
    if g: "eng ?F = None"
  proof -
    have cn: "scriptCompiledFunc e1 = None" using c1 g by simp
    note sl = processFunc_loop_silent [OF r cn]
    have "outs ! i = quantize 0 (script_gain e)" if i: "j < i \<and> i < n" for i
    proof -
      have k: "i - Suc j < n - Suc j" using i by arith
      then have "rest ! (i - Suc j) = quantize 0 (script_gain e1)" using sl by blast
      then show ?thesis using later [of i] i g1 by simp
    qed
    then show ?thesis using sl by blast
  qed
  have S: "\<forall>g. eng ?F = Some g \<longrightarrow>
         (\<exists>ys1 e1. processFunc_loop d eng L inc (Suc j) e = Some (ys1, e1) \<and>
                    scriptCompiledFunc e1 = Some g) \<and>
         (Suc j < n \<longrightarrow>
            outs ! Suc j =
              quantize (case g \<lfloor>fadd (script_t ej) inc\<rfloor> L (fdiv (fadd (script_t ej) inc) L) of
                          Some r \<Rightarrow> r | None \<Rightarrow> 0)
                (script_gain e)) \<and>
         ((\<forall>a b c. g a b c \<noteq> None) \<longrightarrow>
            scriptCompiledFunc e' = Some g \<and>
            (\<forall>i. j < i \<and> i < n \<longrightarrow>
               (\<exists>r. g \<lfloor>clock_after (i - j) inc (script_t ej)\<rfloor> L
                       (fdiv (clock_after (i - j) inc (script_t ej)) L) = Some r \<and>
                     outs ! i = quantize r (script_gain e))))"
    by (intro allI impI) (rule some)
  have N: "eng ?F = None \<longrightarrow>
         scriptCompiledFunc e' = None \<and>
         (\<forall>i. j < i \<and> i < n \<longrightarrow> outs ! i = quantize 0 (script_gain e))"
    by (intro impI) (rule none)
  show ?thesis
    by (intro exI conjI, rule w, rule len, rule ok', rule oj, rule S, rule N)
qed

text \<open>
  Claim C4. Sample \<open>j\<close> of a block of \<open>n\<close> samples is reached in the state the
  block leaves after \<open>j\<close> samples. When the compiled function of that state throws on
  the arguments of sample \<open>j\<close>, the sample emitted is \<open>quantize 0 gain\<close>, and the
  engine is asked for the fallback formula. If it returns a function \<open>g\<close>, the state
  after sample \<open>j\<close> holds \<open>g\<close>, sample \<open>j + 1\<close> is the quantized result of calling
  \<open>g\<close> at the advanced clock (0 should \<open>g\<close> throw there), and when \<open>g\<close> never
  throws, every later sample of the block is the quantized result of \<open>g\<close> and the block
  ends with \<open>g\<close> in place. If the engine fails on the fallback formula, the block ends
  with no compiled function, every later sample of the block is \<open>quantize 0 gain\<close>,
  and so is every sample of a following block, which again ends with no compiled function.
  On the worklet backend (\<open>process\<close>) and on the ScriptProcessor backend
  (\<open>processFunc\<close>, which returns a result for a call depth of 4 or more in a state with
  \<open>script_ok\<close>).
\<close>
theorem runtime_failure_fallback:
  "(j < n \<longrightarrow> inc = fdiv (sParam ! 0) P \<longrightarrow>
      wj = snd (process eng P (Some j) volParam sParam w) \<longrightarrow>
      w_compiled wj = Some f \<longrightarrow>
      f \<lfloor>w_t wj\<rfloor> (param_at sParam j) (fdiv (w_t wj) (param_at sParam j)) = None \<longrightarrow>
      process eng P (Some n) volParam sParam w = (outs, w') \<longrightarrow>
        length outs = n \<and> outs ! j = quantize 0 (param_at volParam j) \<and>
        (\<forall>g. eng ''return (t*(t^t+(t>>15|1)^(t-1280^t)>>10))|0;'' = Some g \<longrightarrow>
           w_compiled (snd (process eng P (Some (Suc j)) volParam sParam w)) = Some g \<and>
           (Suc j < n \<longrightarrow>
              outs ! Suc j =
                quantize (case g \<lfloor>fadd (w_t wj) inc\<rfloor> (param_at sParam (Suc j))
                                 (fdiv (fadd (w_t wj) inc) (param_at sParam (Suc j))) of
                            Some r \<Rightarrow> r | None \<Rightarrow> 0)
                  (param_at volParam (Suc j))) \<and>
           ((\<forall>a b c. g a b c \<noteq> None) \<longrightarrow>
              w_compiled w' = Some g \<and>
              (\<forall>i. j < i \<and> i < n \<longrightarrow>
                 (\<exists>r. g \<lfloor>clock_after (i - j) inc (w_t wj)\<rfloor> (param_at sParam i)
                         (fdiv (clock_after (i - j) inc (w_t wj)) (param_at sParam i)) = Some r \<and>
                       outs ! i = quantize r (param_at volParam i))))) \<and>
        (eng ''return (t*(t^t+(t>>15|1)^(t-1280^t)>>10))|0;'' = None \<longrightarrow>
           w_compiled w' = None \<and>
           (\<forall>i. j < i \<and> i < n \<longrightarrow> outs ! i = quantize 0 (param_at volParam i)) \<and>
           (\<forall>P2 m vp sp.
              w_compiled (snd (process eng P2 (Some m) vp sp w')) = None \<and>
              (\<forall>i < m. fst (process eng P2 (Some m) vp sp w') ! i = quantize 0 (param_at vp i)))))
   \<and> (4 \<le> d \<longrightarrow> script_ok e \<longrightarrow> j < n \<longrightarrow>
      L = max 1 (if logicalSampleRate e = 0 then 8000 else logicalSampleRate e) \<longrightarrow>
      sinc = fdiv L (script_sr e) \<longrightarrow>
      processFunc d eng j e = Some (ysj, ej) \<longrightarrow>
      scriptCompiledFunc ej = Some h \<longrightarrow>
      h \<lfloor>script_t ej\<rfloor> L (fdiv (script_t ej) L) = None \<longrightarrow>
      (\<exists>ys e'. processFunc d eng n e = Some (ys, e') \<and> length ys = n \<and>
         ys ! j = quantize 0 (script_gain e) \<and>
         (\<forall>g. eng ''return (t*(t^t+(t>>15|1)^(t-1280^t)>>10))|0;'' = Some g \<longrightarrow>
            (\<exists>ys1 e1. processFunc d eng (Suc j) e = Some (ys1, e1) \<and>
                       scriptCompiledFunc e1 = Some g) \<and>
            (Suc j < n \<longrightarrow>
               ys ! Suc j =
                 quantize (case g \<lfloor>fadd (script_t ej) sinc\<rfloor> L
                                  (fdiv (fadd (script_t ej) sinc) L) of
                             Some r \<Rightarrow> r | None \<Rightarrow> 0)
                   (script_gain e)) \<and>
            ((\<forall>a b c. g a b c \<noteq> None) \<longrightarrow>
               scriptCompiledFunc e' = Some g \<and>
               (\<forall>i. j < i \<and> i < n \<longrightarrow>
                  (\<exists>r. g \<lfloor>clock_after (i - j) sinc (script_t ej)\<rfloor> L
                          (fdiv (clock_after (i - j) sinc (script_t ej)) L) = Some r \<and>
                        ys ! i = quantize r (script_gain e))))) \<and>
         (eng ''return (t*(t^t+(t>>15|1)^(t-1280^t)>>10))|0;'' = None \<longrightarrow>
            scriptCompiledFunc e' = None \<and>
            (\<forall>i. j < i \<and> i < n \<longrightarrow> ys ! i = quantize 0 (script_gain e)) \<and>
            (\<forall>m. \<exists>ys2 e2. processFunc d eng m e' = Some (ys2, e2) \<and>
                    scriptCompiledFunc e2 = None \<and>
                    (\<forall>i < m. ys2 ! i = quantize 0 (script_gain e))))))"
proof (intro conjI impI)
  let ?F = "''return (t*(t^t+(t>>15|1)^(t-1280^t)>>10))|0;''"
  assume j: "j < n" and inc: "inc = fdiv (sParam ! 0) P"
    and wj: "wj = snd (process eng P (Some j) volParam sParam w)"
    and c: "w_compiled wj = Some f"
    and t: "f \<lfloor>w_t wj\<rfloor> (param_at sParam j) (fdiv (w_t wj) (param_at sParam j)) = None"
    and p: "process eng P (Some n) volParam sParam w = (outs, w')"
  have wj': "wj = snd (process_loop eng volParam sParam inc 0 j w)"
    unfolding wj inc process_Some ..
  have outs: "outs = fst (process_loop eng volParam sParam inc 0 n w)"
    and w': "w' = snd (process_loop eng volParam sParam inc 0 n w)"
    using p unfolding inc process_Some by simp_all
  note th = process_throw [OF wj' outs w' j c t]
  show "length outs = n" unfolding outs by (rule process_loop_length)
  show "outs ! j = quantize 0 (param_at volParam j)" by (rule th(1))
  show "\<forall>g. eng ?F = Some g \<longrightarrow>
           w_compiled (snd (process eng P (Some (Suc j)) volParam sParam w)) = Some g \<and>
           (Suc j < n \<longrightarrow>
              outs ! Suc j =
                quantize (case g \<lfloor>fadd (w_t wj) inc\<rfloor> (param_at sParam (Suc j))
                                 (fdiv (fadd (w_t wj) inc) (param_at sParam (Suc j))) of
                            Some r \<Rightarrow> r | None \<Rightarrow> 0)
                  (param_at volParam (Suc j))) \<and>
           ((\<forall>a b c. g a b c \<noteq> None) \<longrightarrow>
              w_compiled w' = Some g \<and>
              (\<forall>i. j < i \<and> i < n \<longrightarrow>
                 (\<exists>r. g \<lfloor>clock_after (i - j) inc (w_t wj)\<rfloor> (param_at sParam i)
                         (fdiv (clock_after (i - j) inc (w_t wj)) (param_at sParam i)) = Some r \<and>
                       outs ! i = quantize r (param_at volParam i))))"
  proof (intro allI impI conjI)
    fix g assume g: "eng ?F = Some g"
    show "w_compiled (snd (process eng P (Some (Suc j)) volParam sParam w)) = Some g"
      unfolding process_Some inc [symmetric] th(2) by (rule g)
    show "outs ! Suc j =
                quantize (case g \<lfloor>fadd (w_t wj) inc\<rfloor> (param_at sParam (Suc j))
                                 (fdiv (fadd (w_t wj) inc) (param_at sParam (Suc j))) of
                            Some r \<Rightarrow> r | None \<Rightarrow> 0)
                  (param_at volParam (Suc j))"
      if "Suc j < n" using g that by (rule th(3))
    show "w_compiled w' = Some g" if "\<forall>a b c. g a b c \<noteq> None"
      using th(4) [OF g that] by (rule conjunct1)
    show "\<exists>r. g \<lfloor>clock_after (i - j) inc (w_t wj)\<rfloor> (param_at sParam i)
                         (fdiv (clock_after (i - j) inc (w_t wj)) (param_at sParam i)) = Some r \<and>
                       outs ! i = quantize r (param_at volParam i)"
      if "\<forall>a b c. g a b c \<noteq> None" "j < i \<and> i < n" for i
      using th(4) [OF g that(1)] that(2) by blast
  qed
  show "w_compiled w' = None" if "eng ?F = None"
    using th(5) [OF that] by (rule conjunct1)
  show "\<forall>i. j < i \<and> i < n \<longrightarrow> outs ! i = quantize 0 (param_at volParam i)" if "eng ?F = None"
    using th(5) [OF that] by (rule conjunct2)
  show "\<forall>P2 m vp sp.
              w_compiled (snd (process eng P2 (Some m) vp sp w')) = None \<and>
              (\<forall>i < m. fst (process eng P2 (Some m) vp sp w') ! i = quantize 0 (param_at vp i))"
    if "eng ?F = None"
  proof (intro allI)
    fix P2 m vp sp
    have n: "w_compiled w' = None" using th(5) [OF that] by (rule conjunct1)
    from process_loop_silent [OF n, where eng = eng and volParam = vp and sParam = sp
        and inc = "fdiv (sp ! 0) P2" and i = 0 and n = m]
    show "w_compiled (snd (process eng P2 (Some m) vp sp w')) = None \<and>
              (\<forall>i < m. fst (process eng P2 (Some m) vp sp w') ! i = quantize 0 (param_at vp i))"
      unfolding process_Some by simp
  qed
next
  let ?F = "''return (t*(t^t+(t>>15|1)^(t-1280^t)>>10))|0;''"
  assume d: "4 \<le> d" and ok: "script_ok e" and j: "j < n"
    and L: "L = max 1 (if logicalSampleRate e = 0 then 8000 else logicalSampleRate e)"
    and sinc: "sinc = fdiv L (script_sr e)"
    and pj: "processFunc d eng j e = Some (ysj, ej)"
    and c: "scriptCompiledFunc ej = Some h"
    and t: "h \<lfloor>script_t ej\<rfloor> L (fdiv (script_t ej) L) = None"
  have u: "processFunc d eng k e = processFunc_loop d eng L sinc k e" for k
    unfolding processFunc_unfold L sinc ..
  have pj': "processFunc_loop d eng L sinc j e = Some (ysj, ej)" using pj unfolding u .
  from processFunc_throw [OF d ok j pj' c t]
  obtain ys e' where w: "processFunc_loop d eng L sinc n e = Some (ys, e')"
    and len: "length ys = n" and ok': "script_ok e'"
    and oj: "ys ! j = quantize 0 (script_gain e)"
    and S: "\<forall>g. eng ?F = Some g \<longrightarrow>
         (\<exists>ys1 e1. processFunc_loop d eng L sinc (Suc j) e = Some (ys1, e1) \<and>
                    scriptCompiledFunc e1 = Some g) \<and>
         (Suc j < n \<longrightarrow>
            ys ! Suc j =
              quantize (case g \<lfloor>fadd (script_t ej) sinc\<rfloor> L (fdiv (fadd (script_t ej) sinc) L) of
                          Some r \<Rightarrow> r | None \<Rightarrow> 0)
                (script_gain e)) \<and>
         ((\<forall>a b c. g a b c \<noteq> None) \<longrightarrow>
            scriptCompiledFunc e' = Some g \<and>
            (\<forall>i. j < i \<and> i < n \<longrightarrow>
               (\<exists>r. g \<lfloor>clock_after (i - j) sinc (script_t ej)\<rfloor> L
                       (fdiv (clock_after (i - j) sinc (script_t ej)) L) = Some r \<and>
                     ys ! i = quantize r (script_gain e))))"
    and N: "eng ?F = None \<longrightarrow>
         scriptCompiledFunc e' = None \<and>
         (\<forall>i. j < i \<and> i < n \<longrightarrow> ys ! i = quantize 0 (script_gain e))"
    apply (elim exE conjE)
    apply (rule that)
         apply assumption+
    done
  have v: "volume e' = volume e" using processFunc_loop_result [OF w] by simp
  have next_block: "\<forall>m. \<exists>ys2 e2. processFunc d eng m e' = Some (ys2, e2) \<and>
                    scriptCompiledFunc e2 = None \<and>
                    (\<forall>i < m. ys2 ! i = quantize 0 (script_gain e))"
    if "eng ?F = None"
  proof
    fix m
    have cn: "scriptCompiledFunc e' = None" using N that by blast
    from processFunc_loop_total [OF d ok']
    obtain ys2 e2 where l: "processFunc d eng m e' = Some (ys2, e2)"
      unfolding processFunc_unfold by blast
    from l have "scriptCompiledFunc e2 = None \<and> (\<forall>i < m. ys2 ! i = quantize 0 (script_gain e'))"
      unfolding processFunc_unfold using cn by (rule processFunc_loop_silent)
    moreover have "script_gain e' = script_gain e" by (simp add: script_gain_def v)
    ultimately show "\<exists>ys2 e2. processFunc d eng m e' = Some (ys2, e2) \<and>
                    scriptCompiledFunc e2 = None \<and>
                    (\<forall>i < m. ys2 ! i = quantize 0 (script_gain e))"
      using l by auto
  qed
  have N': "eng ?F = None \<longrightarrow>
            scriptCompiledFunc e' = None \<and>
            (\<forall>i. j < i \<and> i < n \<longrightarrow> ys ! i = quantize 0 (script_gain e)) \<and>
            (\<forall>m. \<exists>ys2 e2. processFunc d eng m e' = Some (ys2, e2) \<and>
                    scriptCompiledFunc e2 = None \<and>
                    (\<forall>i < m. ys2 ! i = quantize 0 (script_gain e)))"
    using N next_block by blast
  show "\<exists>ys e'. processFunc d eng n e = Some (ys, e') \<and> length ys = n \<and>
         ys ! j = quantize 0 (script_gain e) \<and>
         (\<forall>g. eng ?F = Some g \<longrightarrow>
            (\<exists>ys1 e1. processFunc d eng (Suc j) e = Some (ys1, e1) \<and>
                       scriptCompiledFunc e1 = Some g) \<and>
            (Suc j < n \<longrightarrow>
               ys ! Suc j =
                 quantize (case g \<lfloor>fadd (script_t ej) sinc\<rfloor> L
                                  (fdiv (fadd (script_t ej) sinc) L) of
                             Some r \<Rightarrow> r | None \<Rightarrow> 0)
                   (script_gain e)) \<and>
            ((\<forall>a b c. g a b c \<noteq> None) \<longrightarrow>
               scriptCompiledFunc e' = Some g \<and>
               (\<forall>i. j < i \<and> i < n \<longrightarrow>
                  (\<exists>r. g \<lfloor>clock_after (i - j) sinc (script_t ej)\<rfloor> L
                          (fdiv (clock_after (i - j) sinc (script_t ej)) L) = Some r \<and>
                        ys ! i = quantize r (script_gain e))))) \<and>
         (eng ?F = None \<longrightarrow>
            scriptCompiledFunc e' = None \<and>
            (\<forall>i. j < i \<and> i < n \<longrightarrow> ys ! i = quantize 0 (script_gain e)) \<and>
            (\<forall>m. \<exists>ys2 e2. processFunc d eng m e' = Some (ys2, e2) \<and>
                    scriptCompiledFunc e2 = None \<and>
                    (\<forall>i < m. ys2 ! i = quantize 0 (script_gain e))))"
    unfolding u
    by (intro exI conjI, rule w, rule len, rule oj, rule S, rule N' [unfolded u])
qed

lemma sample_script_ok: "script_ok sample_script"
  by (simp add: script_ok_def sample_script_def BytebeatExtension_def)

lemma fallback_function_1: "fallback_function 1 s T = Some (- 3)"
  by (simp add: fallback_function_def bitor32_def bitxor32_def sar32_def)

lemma fallback_function_2: "fallback_function 2 s T = Some (- 2)"
  by (simp add: fallback_function_def bitor32_def bitxor32_def sar32_def)

lemma fallback_function_total: "\<forall>a b c. fallback_function a b c \<noteq> None"
  by (simp add: fallback_function_def)

lemma fl_1: "fl 1 = 1"
  using fl_representable [of 1 0] by simp

lemma fl_2: "fl 2 = 2"
  using fl_representable [of 1 1] by simp

lemma sample_engine_fallback_body:
  "sample_engine ''return (t*(t^t+(t>>15|1)^(t-1280^t)>>10))|0;'' = Some fallback_function"
  by (simp add: sample_engine_def)

text \<open>
  \<open>runtime_failure_fallback\<close> on blocks of three samples at a logical rate equal to
  the output rate, from a clock of 0 and with a compiled function that throws on every
  call (the body \<open>x\<close>). With the sample engine the fallback function takes over: it is
  called with \<open>t = 1\<close> and \<open>t = 2\<close>, where it returns -3 and -2. With an engine that
  compiles nothing the remaining samples are silent.
\<close>

theorem runtime_failure_fallback_witness:
  "fst (process sample_engine 8000 (Some 3) [1] [8000]
          (sample_worklet\<lparr>w_t := 0, w_compiled := Some (\<lambda>t s T. None)\<rparr>)) ! 0 = quantize 0 1
   \<and> fst (process sample_engine 8000 (Some 3) [1] [8000]
          (sample_worklet\<lparr>w_t := 0, w_compiled := Some (\<lambda>t s T. None)\<rparr>)) ! 1 = quantize (- 3) 1
   \<and> fst (process sample_engine 8000 (Some 3) [1] [8000]
          (sample_worklet\<lparr>w_t := 0, w_compiled := Some (\<lambda>t s T. None)\<rparr>)) ! 2 = quantize (- 2) 1
   \<and> w_compiled (snd (process sample_engine 8000 (Some 3) [1] [8000]
          (sample_worklet\<lparr>w_t := 0, w_compiled := Some (\<lambda>t s T. None)\<rparr>))) = Some fallback_function
   \<and> fst (process (\<lambda>body. None) 8000 (Some 3) [1] [8000]
          (sample_worklet\<lparr>w_t := 0, w_compiled := Some (\<lambda>t s T. None)\<rparr>)) ! 2 = quantize 0 1
   \<and> w_compiled (snd (process (\<lambda>body. None) 8000 (Some 3) [1] [8000]
          (sample_worklet\<lparr>w_t := 0, w_compiled := Some (\<lambda>t s T. None)\<rparr>))) = None
   \<and> (\<exists>ys e'. processFunc 4 sample_engine 3
          (sample_script\<lparr>script_t := 0, scriptCompiledFunc := Some (\<lambda>t s T. None),
             logicalSampleRate := 44100\<rparr>) = Some (ys, e') \<and>
          ys ! 0 = quantize 0 1 \<and> ys ! 1 = quantize (- 3) 1 \<and> ys ! 2 = quantize (- 2) 1 \<and>
          scriptCompiledFunc e' = Some fallback_function)
   \<and> (\<exists>ys e'. processFunc 4 (\<lambda>body. None) 3
          (sample_script\<lparr>script_t := 0, scriptCompiledFunc := Some (\<lambda>t s T. None),
             logicalSampleRate := 44100\<rparr>) = Some (ys, e') \<and>
          ys ! 2 = quantize 0 1 \<and> scriptCompiledFunc e' = None)"
proof -
  let ?W = "sample_worklet\<lparr>w_t := 0, w_compiled := Some (\<lambda>t s T. None)\<rparr>"
  let ?E = "sample_script\<lparr>script_t := 0, scriptCompiledFunc := Some (\<lambda>t s T. None),
             logicalSampleRate := 44100\<rparr>"
  let ?F = "''return (t*(t^t+(t>>15|1)^(t-1280^t)>>10))|0;''"
  let ?R = "process sample_engine 8000 (Some 3) [1] [8000] ?W"
  let ?Q = "process (\<lambda>body. None) 8000 (Some 3) [1] [8000] ?W"
  have j: "(0::nat) < 3" by simp
  have inc: "1 = fdiv ([8000] ! 0) 8000" by (simp add: fdiv_def fl_1)
  have wj: "?W = snd (process eng 8000 (Some 0) [1] [8000] ?W)" for eng
    by (simp add: process_def)
  have c: "w_compiled ?W = Some (\<lambda>t s T. None)" by simp
  have t: "(\<lambda>t s T. None) \<lfloor>w_t ?W\<rfloor> (param_at [8000] 0) (fdiv (w_t ?W) (param_at [8000] 0)) = None"
    by simp
  have wt: "w_t ?W = 0" by simp
  have pa: "param_at [x] i = x" for x :: real and i by (simp add: param_at_def)
  have c2: "clock_after 2 1 0 = 2" by (simp add: eval_nat_numeral fadd_def fl_1 fl_2)
  note A = runtime_failure_fallback [where j = 0 and n = 3 and inc = 1 and sParam = "[8000]"
      and P = 8000 and wj = ?W and eng = sample_engine and volParam = "[1]" and w = ?W
      and f = "\<lambda>t s T. None" and outs = "fst ?R" and w' = "snd ?R",
      THEN conjunct1, rule_format, OF j inc wj c t prod.collapse [symmetric]]
  have a0: "fst ?R ! 0 = quantize 0 1" using A by (simp only: pa) 
  note A1 = A [THEN conjunct2, THEN conjunct2, THEN conjunct1, rule_format,
      OF sample_engine_fallback_body]
  have a1: "fst ?R ! 1 = quantize (- 3) 1"
    using A1 [THEN conjunct2, THEN conjunct1]
    by (simp add: pa fadd_def fl_1 fallback_function_1)
  note A2 = A1 [THEN conjunct2, THEN conjunct2, rule_format, OF fallback_function_total [rule_format]]
  have a3: "w_compiled (snd ?R) = Some fallback_function" using A2 by (rule conjunct1)
  from A2 [THEN conjunct2, rule_format, of 2]
  have a2: "fst ?R ! 2 = quantize (- 2) 1"
    by (simp add: pa c2 fallback_function_2)
  note B = runtime_failure_fallback [where j = 0 and n = 3 and inc = 1 and sParam = "[8000]"
      and P = 8000 and wj = ?W and eng = "\<lambda>body. None" and volParam = "[1]" and w = ?W
      and f = "\<lambda>t s T. None" and outs = "fst ?Q" and w' = "snd ?Q",
      THEN conjunct1, rule_format, OF j inc wj c t prod.collapse [symmetric]]
  note B1 = B [THEN conjunct2, THEN conjunct2, THEN conjunct2, rule_format, OF refl]
  have b0: "w_compiled (snd ?Q) = None" using B1 by (rule conjunct1)
  from B1 [THEN conjunct2, THEN conjunct1, rule_format, of 2]
  have b2: "fst ?Q ! 2 = quantize 0 1" by (simp add: pa)
  have d: "(4::nat) \<le> 4" by simp
  have ok: "script_ok ?E" using sample_script_ok by (simp add: script_ok_def)
  have L: "44100 = max 1 (if logicalSampleRate ?E = 0 then 8000 else logicalSampleRate ?E)"
    by simp
  have sinc: "1 = fdiv 44100 (script_sr ?E)"
    by (simp add: sample_script_def BytebeatExtension_def fdiv_def fl_1)
  have pj: "processFunc 4 eng 0 ?E = Some ([], ?E)" for eng
    by (simp add: processFunc_def)
  have sc: "scriptCompiledFunc ?E = Some (\<lambda>t s T. None)" by simp
  have st: "(\<lambda>t s T. None) \<lfloor>script_t ?E\<rfloor> 44100 (fdiv (script_t ?E) 44100) = None" by simp
  have g: "script_gain ?E = 1"
    by (simp add: script_gain_def sample_script_def BytebeatExtension_def)
  have s0: "script_t ?E = 0" by simp
  from runtime_failure_fallback [where j = 0 and n = 3 and d = 4 and e = ?E and L = 44100
      and sinc = 1 and eng = sample_engine and ysj = "[]" and ej = ?E and h = "\<lambda>t s T. None",
      THEN conjunct2, rule_format, OF d ok j L sinc pj sc st]
  obtain ys e' where p: "processFunc 4 sample_engine 3 ?E = Some (ys, e')"
    and y0: "ys ! 0 = quantize 0 (script_gain ?E)"
    and S: "\<forall>g. sample_engine ?F = Some g \<longrightarrow>
            (\<exists>ys1 e1. processFunc 4 sample_engine (Suc 0) ?E = Some (ys1, e1) \<and>
                       scriptCompiledFunc e1 = Some g) \<and>
            (Suc 0 < 3 \<longrightarrow>
               ys ! Suc 0 =
                 quantize (case g \<lfloor>fadd (script_t ?E) 1\<rfloor> 44100
                                  (fdiv (fadd (script_t ?E) 1) 44100) of
                             Some r \<Rightarrow> r | None \<Rightarrow> 0)
                   (script_gain ?E)) \<and>
            ((\<forall>a b c. g a b c \<noteq> None) \<longrightarrow>
               scriptCompiledFunc e' = Some g \<and>
               (\<forall>i. 0 < i \<and> i < 3 \<longrightarrow>
                  (\<exists>r. g \<lfloor>clock_after (i - 0) 1 (script_t ?E)\<rfloor> 44100
                          (fdiv (clock_after (i - 0) 1 (script_t ?E)) 44100) = Some r \<and>
                        ys ! i = quantize r (script_gain ?E))))"
    apply (elim exE conjE)
    apply (rule that)
      apply assumption+
    done
  note S1 = S [rule_format, OF sample_engine_fallback_body]
  have y1: "ys ! 1 = quantize (- 3) 1"
    using S1 [THEN conjunct2, THEN conjunct1]
    by (simp add: g s0 fadd_def fl_1 fallback_function_1)
  note S2 = S1 [THEN conjunct2, THEN conjunct2, rule_format, OF fallback_function_total [rule_format]]
  have y3: "scriptCompiledFunc e' = Some fallback_function" using S2 by (rule conjunct1)
  from S2 [THEN conjunct2, rule_format, of 2]
  have y2: "ys ! 2 = quantize (- 2) 1"
    by (simp add: g s0 c2 fallback_function_2)
  have script1: "\<exists>ys e'. processFunc 4 sample_engine 3 ?E = Some (ys, e') \<and>
          ys ! 0 = quantize 0 1 \<and> ys ! 1 = quantize (- 3) 1 \<and> ys ! 2 = quantize (- 2) 1 \<and>
          scriptCompiledFunc e' = Some fallback_function"
    using p y0 y1 y2 y3 g by simp
  from runtime_failure_fallback [where j = 0 and n = 3 and d = 4 and e = ?E and L = 44100
      and sinc = 1 and eng = "\<lambda>body. None" and ysj = "[]" and ej = ?E and h = "\<lambda>t s T. None",
      THEN conjunct2, rule_format, OF d ok j L sinc pj sc st]
  obtain zs e'' where q: "processFunc 4 (\<lambda>body. None) 3 ?E = Some (zs, e'')"
    and N: "(\<lambda>body. None) ?F = (None :: compiled_fn option) \<longrightarrow>
            scriptCompiledFunc e'' = None \<and>
            (\<forall>i. 0 < i \<and> i < 3 \<longrightarrow> zs ! i = quantize 0 (script_gain ?E)) \<and>
            (\<forall>m. \<exists>ys2 e2. processFunc 4 (\<lambda>body. None) m e'' = Some (ys2, e2) \<and>
                    scriptCompiledFunc e2 = None \<and>
                    (\<forall>i < m. ys2 ! i = quantize 0 (script_gain ?E)))"
    apply (elim exE conjE)
    apply (rule that)
     apply assumption+
    done
  note N1 = N [rule_format, OF refl]
  have z3: "scriptCompiledFunc e'' = None" using N1 by (rule conjunct1)
  from N1 [THEN conjunct2, THEN conjunct1, rule_format, of 2]
  have z2: "zs ! 2 = quantize 0 1" by (simp add: g)
  have script2: "\<exists>ys e'. processFunc 4 (\<lambda>body. None) 3 ?E = Some (ys, e') \<and>
          ys ! 2 = quantize 0 1 \<and> scriptCompiledFunc e' = None"
    using q z2 z3 by simp
  show ?thesis
    by (intro conjI, rule a0, rule a1, rule a2, rule a3, rule b2, rule b0, rule script1,
        rule script2)
qed

section \<open>The logical clock\<close>

text \<open>
  Claim C6. Over \<open>n\<close> consecutive samples with a constant logical rate \<open>L\<close> and
  output rate \<open>P\<close> every sample adds the double \<open>L / P\<close> to the clock in double
  precision, so that after the block the clock is \<open>clock_after n (fdiv L P) old\<close>. That
  value equals \<open>old + n * (L / P)\<close> within a relative tolerance of
  \<open>(1 + 2^-53)^(n + 1) - 1\<close> (at most \<open>(n + 1) * 2^-52\<close>, see
  \<open>tolerance_linear\<close>), for a clock that is not negative and a quotient in the range of
  the normal doubles. At sample \<open>j\<close> of the block the clock is
  \<open>c = clock_after j (fdiv L P) old\<close> and a compiled function that does not throw is
  called with \<open>\<lfloor>c\<rfloor>\<close>, \<open>L\<close> and the double \<open>c / L\<close>: the emitted sample is the
  quantized result of exactly that call, for every such function. The message
  \<open>resetTime\<close> sets the clock to 0. On the ScriptProcessor backend \<open>L\<close> is
  \<open>logicalSampleRate\<close>, which \<open>setProperty\<close> keeps between 100 and 192000, and \<open>P\<close>
  the sample rate of the audio context.
\<close>
theorem sample_clock:
  "((sParam = [L] \<or> sParam = replicate n L) \<longrightarrow>
      w_t (snd (process eng P (Some n) volParam sParam w)) = clock_after n (fdiv L P) (w_t w) \<and>
      (0 \<le> w_t w \<longrightarrow> 2 powi (- 1022) \<le> L / P \<longrightarrow>
         \<bar>w_t (snd (process eng P (Some n) volParam sParam w)) - (w_t w + real n * (L / P))\<bar>
           \<le> (w_t w + real n * (L / P)) * ((1 + 1 / 2 ^ 53) ^ (n + 1) - 1)) \<and>
      (\<forall>f. w_compiled w = Some f \<longrightarrow> (\<forall>a b c. f a b c \<noteq> None) \<longrightarrow>
         (\<forall>j < n. \<exists>r.
            f \<lfloor>clock_after j (fdiv L P) (w_t w)\<rfloor> L
              (fdiv (clock_after j (fdiv L P) (w_t w)) L) = Some r \<and>
            fst (process eng P (Some n) volParam sParam w) ! j =
              quantize r (param_at volParam j))))
   \<and> w_t (onmessage eng Msg_resetTime w) = 0
   \<and> (4 \<le> d \<longrightarrow> script_ok e \<longrightarrow> 1 \<le> logicalSampleRate e \<longrightarrow>
      (\<exists>ys e'. processFunc d eng n e = Some (ys, e') \<and>
         script_t e' = clock_after n (fdiv (logicalSampleRate e) (script_sr e)) (script_t e) \<and>
         (0 \<le> script_t e \<longrightarrow> 2 powi (- 1022) \<le> logicalSampleRate e / script_sr e \<longrightarrow>
            \<bar>script_t e' - (script_t e + real n * (logicalSampleRate e / script_sr e))\<bar>
              \<le> (script_t e + real n * (logicalSampleRate e / script_sr e)) *
                 ((1 + 1 / 2 ^ 53) ^ (n + 1) - 1)) \<and>
         (\<forall>f. scriptCompiledFunc e = Some f \<longrightarrow> (\<forall>a b c. f a b c \<noteq> None) \<longrightarrow>
            (\<forall>j < n. \<exists>r.
               f \<lfloor>clock_after j (fdiv (logicalSampleRate e) (script_sr e)) (script_t e)\<rfloor>
                 (logicalSampleRate e)
                 (fdiv (clock_after j (fdiv (logicalSampleRate e) (script_sr e)) (script_t e))
                    (logicalSampleRate e)) = Some r \<and>
               ys ! j = quantize r (script_gain e)))))
   \<and> handleScriptMessage (Suc d) eng Msg_resetTime e = Some (e\<lparr>script_t := 0\<rparr>)"
proof (intro conjI impI allI)
  assume s: "sParam = [L] \<or> sParam = replicate n L"
  show t: "w_t (snd (process eng P (Some n) volParam sParam w)) =
      clock_after n (fdiv L P) (w_t w)"
  proof (cases n)
    case 0
    then show ?thesis by (simp add: process_Some)
  next
    case (Suc k)
    then have "sParam ! 0 = L" using s by auto
    then show ?thesis by (simp only: process_Some process_loop_t)
  qed
  show "\<bar>w_t (snd (process eng P (Some n) volParam sParam w)) - (w_t w + real n * (L / P))\<bar>
           \<le> (w_t w + real n * (L / P)) * ((1 + 1 / 2 ^ 53) ^ (n + 1) - 1)"
    if "0 \<le> w_t w" "2 powi (- 1022) \<le> L / P"
    unfolding t using that by (rule clock_tolerance)
next
  fix f j
  assume s: "sParam = [L] \<or> sParam = replicate n L"
    and c: "w_compiled w = Some f" and tot: "\<forall>a b c. f a b c \<noteq> None" and j: "j < n"
  have s0: "sParam ! 0 = L" and sj: "param_at sParam j = L"
    using param_at_const [OF s j] by simp_all
  from process_loop_outputs [OF c tot j, where inc = "fdiv L P" and sParam = sParam and i = 0
      and eng = eng and volParam = volParam]
  show "\<exists>r. f \<lfloor>clock_after j (fdiv L P) (w_t w)\<rfloor> L
              (fdiv (clock_after j (fdiv L P) (w_t w)) L) = Some r \<and>
            fst (process eng P (Some n) volParam sParam w) ! j =
              quantize r (param_at volParam j)"
    by (simp add: process_Some s0 sj)
next
  show "w_t (onmessage eng Msg_resetTime w) = 0" by (simp add: onmessage_def)
next
  assume d: "4 \<le> d" and ok: "script_ok e" and L: "1 \<le> logicalSampleRate e"
  let ?L = "logicalSampleRate e"
  let ?inc = "fdiv ?L (script_sr e)"
  from processFunc_loop_total [OF d ok]
  obtain ys e' where l: "processFunc_loop d eng ?L ?inc n e = Some (ys, e')" by blast
  have t: "script_t e' = clock_after n ?inc (script_t e)"
    using processFunc_loop_result [OF l] by simp
  have tol: "0 \<le> script_t e \<longrightarrow> 2 powi (- 1022) \<le> ?L / script_sr e \<longrightarrow>
            \<bar>script_t e' - (script_t e + real n * (?L / script_sr e))\<bar>
              \<le> (script_t e + real n * (?L / script_sr e)) * ((1 + 1 / 2 ^ 53) ^ (n + 1) - 1)"
    unfolding t by (intro impI) (rule clock_tolerance)
  have o: "\<forall>f. scriptCompiledFunc e = Some f \<longrightarrow> (\<forall>a b c. f a b c \<noteq> None) \<longrightarrow>
            (\<forall>j < n. \<exists>r. f \<lfloor>clock_after j ?inc (script_t e)\<rfloor> ?L
                 (fdiv (clock_after j ?inc (script_t e)) ?L) = Some r \<and>
               ys ! j = quantize r (script_gain e))"
    using processFunc_loop_outputs [OF l] by blast
  show "\<exists>ys e'. processFunc d eng n e = Some (ys, e') \<and>
         script_t e' = clock_after n ?inc (script_t e) \<and>
         (0 \<le> script_t e \<longrightarrow> 2 powi (- 1022) \<le> ?L / script_sr e \<longrightarrow>
            \<bar>script_t e' - (script_t e + real n * (?L / script_sr e))\<bar>
              \<le> (script_t e + real n * (?L / script_sr e)) * ((1 + 1 / 2 ^ 53) ^ (n + 1) - 1)) \<and>
         (\<forall>f. scriptCompiledFunc e = Some f \<longrightarrow> (\<forall>a b c. f a b c \<noteq> None) \<longrightarrow>
            (\<forall>j < n. \<exists>r. f \<lfloor>clock_after j ?inc (script_t e)\<rfloor> ?L
                 (fdiv (clock_after j ?inc (script_t e)) ?L) = Some r \<and>
               ys ! j = quantize r (script_gain e)))"
    unfolding processFunc_logicalS [OF L]
    by (intro exI conjI, rule l, rule t, rule tol, rule o)
next
  show "handleScriptMessage (Suc d) eng Msg_resetTime e = Some (e\<lparr>script_t := 0\<rparr>)" by simp
qed

text \<open>
  \<open>sample_clock\<close> for seven samples at the default logical rate of 8000 Hz on an
  output of 48000 Hz, from a clock of 0, with the formula \<open>t\<close>. Six additions of the
  double nearest to \<open>1 / 6\<close> give \<open>1 - 2^-53\<close>: sample 6 is computed with \<open>t = 0\<close>,
  and after the seventh the clock is \<open>5254199565265578 / 2^52\<close>, one unit in the last
  place below the double nearest to \<open>7 / 6\<close>.
\<close>

theorem sample_clock_witness:
  "w_t (snd (process sample_engine 48000 (Some 7) [1] [8000]
              (sample_worklet\<lparr>w_t := 0, w_compiled := Some identity_function\<rparr>))) =
     5254199565265578 / 2 ^ 52
   \<and> \<bar>w_t (snd (process sample_engine 48000 (Some 7) [1] [8000]
              (sample_worklet\<lparr>w_t := 0, w_compiled := Some identity_function\<rparr>)))
        - 7 * (8000 / 48000)\<bar>
       \<le> 7 * (8000 / 48000) * ((1 + 1 / 2 ^ 53) ^ 8 - 1)
   \<and> fst (process sample_engine 48000 (Some 7) [1] [8000]
              (sample_worklet\<lparr>w_t := 0, w_compiled := Some identity_function\<rparr>)) ! 6 =
       quantize 0 1
   \<and> (\<exists>ys e'. processFunc 4 sample_engine 7
                  (sample_script\<lparr>audioCtx := Some 48000, script_t := 0, script_sr := 48000,
                     scriptCompiledFunc := Some identity_function\<rparr>) = Some (ys, e') \<and>
         script_t e' = 5254199565265578 / 2 ^ 52 \<and>
         \<bar>script_t e' - 7 * (8000 / 48000)\<bar> \<le> 7 * (8000 / 48000) * ((1 + 1 / 2 ^ 53) ^ 8 - 1) \<and>
         ys ! 6 = quantize 0 1)"
proof -
  let ?W = "sample_worklet\<lparr>w_t := 0, w_compiled := Some identity_function\<rparr>"
  let ?E = "sample_script\<lparr>audioCtx := Some 48000, script_t := 0, script_sr := 48000,
                     scriptCompiledFunc := Some identity_function\<rparr>"
  have ok: "script_ok ?E" using sample_script_ok by (simp add: script_ok_def)
  have tot: "identity_function a b c \<noteq> None" for a b c by (simp add: identity_function_def)
  have E: "logicalSampleRate ?E = 8000" "script_sr ?E = 48000" "script_t ?E = 0"
    "script_gain ?E = 1" "scriptCompiledFunc ?E = Some identity_function"
    by (simp_all add: sample_script_def BytebeatExtension_def script_gain_def)
  have W: "w_t ?W = 0" "w_compiled ?W = Some identity_function"
    by (simp_all add: sample_worklet_def)
  have s: "[8000] = [8000 :: real] \<or> [8000] = replicate 7 (8000 :: real)" by simp
  have z: "(0::real) \<le> 0" by simp
  have "(2::real) powi (- 1022) \<le> 2 powi (- 3)" by (intro power_int_increasing) simp_all
  then have q: "(2::real) powi (- 1022) \<le> 8000 / 48000" by simp
  have i6: "identity_function \<lfloor>clock_after 6 (fdiv 8000 48000) 0\<rfloor> s T = Some 0" for s T
    unfolding clock_8000_48000 by (simp add: identity_function_def bitor32_def)
  note A = sample_clock [where sParam = "[8000]" and L = 8000 and n = 7 and eng = sample_engine
      and P = 48000 and volParam = "[1]" and w = ?W, THEN conjunct1, rule_format, OF s]
  have a: "w_t (snd (process sample_engine 48000 (Some 7) [1] [8000] ?W)) =
      5254199565265578 / 2 ^ 52"
    using A [THEN conjunct1] unfolding W clock_8000_48000_end .
  have b: "\<bar>w_t (snd (process sample_engine 48000 (Some 7) [1] [8000] ?W))
        - 7 * (8000 / 48000)\<bar> \<le> 7 * (8000 / 48000) * ((1 + 1 / 2 ^ 53) ^ 8 - 1)"
    using A [THEN conjunct2, THEN conjunct1, rule_format, unfolded W, OF z q] by simp
  from A [THEN conjunct2, THEN conjunct2, rule_format, OF W(2) tot, of 6]
  have c: "fst (process sample_engine 48000 (Some 7) [1] [8000] ?W) ! 6 = quantize 0 1"
    unfolding W by (simp add: i6 param_at_def)
  have d: "(4::nat) \<le> 4" by simp
  have L: "1 \<le> logicalSampleRate ?E" unfolding E by simp
  from sample_clock [where d = 4 and e = ?E and n = 7 and eng = sample_engine,
      THEN conjunct2, THEN conjunct2, THEN conjunct1, rule_format, OF d ok L]
  obtain ys e' where p: "processFunc 4 sample_engine 7 ?E = Some (ys, e')"
    and t: "script_t e' = clock_after 7 (fdiv (logicalSampleRate ?E) (script_sr ?E)) (script_t ?E)"
    and tol: "0 \<le> script_t ?E \<longrightarrow> 2 powi (- 1022) \<le> logicalSampleRate ?E / script_sr ?E \<longrightarrow>
            \<bar>script_t e' - (script_t ?E + real 7 * (logicalSampleRate ?E / script_sr ?E))\<bar>
              \<le> (script_t ?E + real 7 * (logicalSampleRate ?E / script_sr ?E)) *
                 ((1 + 1 / 2 ^ 53) ^ (7 + 1) - 1)"
    and o: "\<forall>f. scriptCompiledFunc ?E = Some f \<longrightarrow> (\<forall>a b c. f a b c \<noteq> None) \<longrightarrow>
            (\<forall>j < 7. \<exists>r.
               f \<lfloor>clock_after j (fdiv (logicalSampleRate ?E) (script_sr ?E)) (script_t ?E)\<rfloor>
                 (logicalSampleRate ?E)
                 (fdiv (clock_after j (fdiv (logicalSampleRate ?E) (script_sr ?E)) (script_t ?E))
                    (logicalSampleRate ?E)) = Some r \<and>
               ys ! j = quantize r (script_gain ?E))"
    apply (elim exE conjE)
    apply (rule that)
       apply assumption+
    done
  have t': "script_t e' = 5254199565265578 / 2 ^ 52"
    using t unfolding E clock_8000_48000_end .
  have tol': "\<bar>script_t e' - 7 * (8000 / 48000)\<bar>
      \<le> 7 * (8000 / 48000) * ((1 + 1 / 2 ^ 53) ^ 8 - 1)"
    using tol [unfolded E, rule_format, OF z q] by simp
  from o [unfolded E, rule_format, OF refl tot, of 6]
  have y: "ys ! 6 = quantize 0 1" by (simp add: i6)
  have e: "\<exists>ys e'. processFunc 4 sample_engine 7 ?E = Some (ys, e') \<and>
         script_t e' = 5254199565265578 / 2 ^ 52 \<and>
         \<bar>script_t e' - 7 * (8000 / 48000)\<bar> \<le> 7 * (8000 / 48000) * ((1 + 1 / 2 ^ 53) ^ 8 - 1) \<and>
         ys ! 6 = quantize 0 1"
    by (intro exI conjI, rule p, rule t', rule tol', rule y)
  show ?thesis by (intro conjI, rule a, rule b, rule c, rule e)
qed

section \<open>Setting a formula\<close>

text \<open>
  The worklet's \<open>_setFormula\<close> keeps a requested function only after it returned on
  \<open>(0, 8000, 0)\<close>, and never touches the clock.
\<close>

lemma setFormula_t: "w_t (setFormula eng formulaText w) = w_t w"
  by (simp add: setFormula_def w_catch_fallback_fields split: option.splits)

lemma setFormula_compiled:
  "w_compiled (setFormula eng formulaText w) =
     (case new_Function eng formulaText of
        None \<Rightarrow> new_Function eng ERROR_FALLBACK_FORMULA
      | Some f \<Rightarrow>
          (case f 0 8000 0 of
             None \<Rightarrow> new_Function eng ERROR_FALLBACK_FORMULA
           | Some r \<Rightarrow> Some f))"
  by (simp add: setFormula_def w_catch_fallback_fields split: option.splits)

lemma setFormula_smoke_tested:
  "new_Function eng formulaText = Some f \<Longrightarrow> w_compiled (setFormula eng formulaText w) = Some f \<Longrightarrow>
   new_Function eng ERROR_FALLBACK_FORMULA \<noteq> Some f \<Longrightarrow> f 0 8000 0 \<noteq> None"
  by (auto simp: setFormula_compiled split: option.splits)

lemma sample_engine_x: "new_Function sample_engine ''x'' = Some (\<lambda>t s T. None)"
  by (simp add: new_Function_def sample_engine_def)

lemma sample_engine_t: "new_Function sample_engine ''t'' = Some identity_function"
  by (simp add: new_Function_def sample_engine_def)

lemma sample_engine_fallback:
  "new_Function sample_engine ERROR_FALLBACK_FORMULA = Some fallback_function"
  by (simp add: new_Function_def sample_engine_def ERROR_FALLBACK_FORMULA_def)

text \<open>
  Claim C9 says that setting a formula leaves the logical clock unchanged on both
  backends. The worklet does so, for every engine, formula and state. The
  ScriptProcessor handler assigns \<open>t = 0.0\<close> after a successful compile (line 492):
  on the sample state, whose clock is 5, the message \<open>setFormula\<close> with the formula
  \<open>t\<close> leaves the clock at 0.
\<close>
theorem script_setFormula_resets_clock:
  "w_t (onmessage eng (Msg_setFormula formulaText) w) = w_t w
   \<and> script_t sample_script = 5
   \<and> map_option script_t
        (handleScriptMessage (Suc d) sample_engine (Msg_setFormula ''t'') sample_script) = Some 0"
  by (simp add: onmessage_def setFormula_t sample_engine_t sample_script_def)

section \<open>The block \<open>isPlaying\<close>\<close>

text \<open>
  Claim C10 says that \<open>isPlaying()\<close> can be called and returns a boolean. The
  constructor assigns \<open>this.isPlaying = false\<close> (line 142), an own property that hides
  the method of the same name on the prototype, and \<open>_startAudio\<close> and \<open>_stopAudio\<close>
  assign booleans to it again. In every state the property \<open>isPlaying\<close> of the object
  is that boolean, and calling it throws a \<open>TypeError\<close>.
\<close>
theorem isPlaying_not_callable:
  "call_isPlaying e = Inl TypeError \<and> get_property e ''isPlaying'' = JS_boolean (isPlaying e)"
  by (simp add: call_isPlaying_def get_property_def own_property_def)

section \<open>The safety check of formula texts\<close>

lemma sublist_simps_eval [simp]:
  "sublist [] ys" "\<not> sublist (x # xs) []"
  "sublist (x # xs) (y # ys) \<longleftrightarrow> prefix (x # xs) (y # ys) \<or> sublist (x # xs) ys"
  by (simp_all add: sublist_Cons_right)

lemma trim_x: "trim ''x'' = ''x''"
  by (simp add: trim_def is_whitespace_def)

lemma sanity_x: "sanityCheckFormula ''x'' = None"
  by (simp add: sanityCheckFormula_def forbidden_def js_includes_def)

lemma trim_fallback: "trim ERROR_FALLBACK_FORMULA = ERROR_FALLBACK_FORMULA"
  by (simp add: trim_def is_whitespace_def ERROR_FALLBACK_FORMULA_def)

lemma sanity_fallback: "sanityCheckFormula ERROR_FALLBACK_FORMULA = None"
  by (simp add: sanityCheckFormula_def forbidden_def js_includes_def ERROR_FALLBACK_FORMULA_def)

text \<open>
  Claim C1 says that on every formula-setting path of both backends a formula whose
  function throws on the neutral inputs is replaced by the fallback, with a diagnostic.
  The worklet's \<open>_setFormula\<close> and \<open>_createScriptProcessor\<close> run that smoke test;
  the \<open>setFormula\<close> branch of \<open>_handleScriptMessage\<close> (lines 489--499) compiles
  and keeps the function without calling it, and reports nothing. With the formula
  \<open>x\<close>, which compiles and throws a \<open>ReferenceError\<close> on every call: the handler
  keeps the throwing function and adds no notice; the worklet switches to the fallback
  and posts an error; and \<open>startFormula\<close> on a fresh extension without worklet support
  ends with the throwing function installed, because \<open>_startAudio\<close> sends the formula
  through the handler after \<open>_createScriptProcessor\<close> had replaced it.
\<close>

theorem script_setFormula_keeps_throwing_function:
  "handleScriptMessage (Suc d) sample_engine (Msg_setFormula ''x'') e =
     Some (e\<lparr>scriptCompiledFunc := Some (\<lambda>t s T. None), script_t := 0\<rparr>)
   \<and> setFormula sample_engine ''x'' w =
     w\<lparr>w_compiled := Some fallback_function,
       w_posted := w_posted w @ [Msg_error ''Compile error; switched to fallback formula: '']\<rparr>
   \<and> map_option scriptCompiledFunc
       (startFormula (Suc (Suc d)) script_only_env sample_engine ''x'' BytebeatExtension)
     = Some (Some (\<lambda>t s T. None))"
proof -
  have "map_option scriptCompiledFunc
       (startFormula (Suc (Suc d)) script_only_env sample_engine ''x'' BytebeatExtension)
     = Some (Some (\<lambda>t s T. None))"
    by (simp add: startFormula_def trim_x sanity_x ensureAudioPrepared_def script_only_env_def
        BytebeatExtension_def startAudio_def createScriptProcessor_def sample_engine_x
        sample_engine_fallback Let_def)
  then show ?thesis
    by (simp add: sample_engine_x sample_engine_fallback setFormula_def w_catch_fallback_def)
qed

lemma forbidden_solid:
  "f \<in> set forbidden \<Longrightarrow> f \<noteq> [] \<and> (\<forall>c \<in> set f. \<not> is_whitespace c)"
  by (auto simp: forbidden_def is_whitespace_def)

lemma sublist_dropWhile:
  assumes "f \<noteq> []" "\<forall>c \<in> set f. \<not> P c" "sublist f s"
  shows "sublist f (dropWhile P s)"
proof -
  from assms(3) obtain ps ss where s: "s = ps @ f @ ss" by (auto simp: sublist_def)
  show ?thesis
  proof (cases "\<forall>c \<in> set ps. P c")
    case True
    then have "dropWhile P s = dropWhile P (f @ ss)" by (simp add: s dropWhile_append2)
    also have "\<dots> = f @ ss" using assms(1,2) by (cases f) simp_all
    finally show ?thesis by (simp add: sublist_def) (metis append_Nil)
  next
    case False
    then obtain c where "c \<in> set ps" "\<not> P c" by blast
    then have "dropWhile P s = dropWhile P ps @ f @ ss" by (simp add: s dropWhile_append1)
    then show ?thesis by (auto simp: sublist_def)
  qed
qed

lemma sublist_trim:
  assumes "f \<in> set forbidden" "sublist f s"
  shows "sublist f (trim s)"
proof -
  note a = forbidden_solid [OF assms(1)]
  have "sublist f (dropWhile is_whitespace s)"
    using a assms(2) by (intro sublist_dropWhile) simp_all
  then have "sublist (rev f) (rev (dropWhile is_whitespace s))" by (simp add: sublist_rev)
  then have "sublist (rev f) (dropWhile is_whitespace (rev (dropWhile is_whitespace s)))"
    using a by (intro sublist_dropWhile) simp_all
  then have "sublist (rev (rev f)) (rev (dropWhile is_whitespace (rev (dropWhile is_whitespace s))))"
    by (simp only: sublist_rev)
  then show ?thesis by (simp add: trim_def)
qed

lemma sanityCheckFormula_rejects:
  "sanityCheckFormula s \<noteq> None \<longleftrightarrow>
     (\<exists>f \<in> set forbidden. js_includes s f) \<or> length s > 2000"
proof (cases "find (js_includes s) forbidden")
  case None
  then have "\<not> (\<exists>f \<in> set forbidden. js_includes s f)" by (simp add: find_None_iff)
  then show ?thesis using None by (simp add: sanityCheckFormula_def)
next
  case (Some f)
  then have "f \<in> set forbidden \<and> js_includes s f"
    by (auto simp: find_Some_iff)
  then show ?thesis using Some by (auto simp: sanityCheckFormula_def)
qed

lemma createScriptProcessor_fields:
  "formula (createScriptProcessor eng sr bs e) = formula e"
  "scriptRecordBuffer (createScriptProcessor eng sr bs e) = []"
  "recording (createScriptProcessor eng sr bs e) = recording e"
  "script_t (createScriptProcessor eng sr bs e) = 0"
  by (simp_all add: createScriptProcessor_def Let_def split: option.splits)

lemma handleScriptMessage_setFormula:
  "\<exists>e'. handleScriptMessage (Suc d) eng (Msg_setFormula f) e = Some e' \<and>
        formula e' = formula e \<and> scriptRecordBuffer e' = scriptRecordBuffer e \<and>
        isPlaying e' = isPlaying e \<and> recording e' = recording e \<and> audioCtx e' = audioCtx e"
  by (simp split: option.splits)

lemma postToNode_setFormula:
  "\<exists>e'. postToNode (Suc (Suc d)) eng (Msg_setFormula f) e = Some e' \<and>
        formula e' = formula e \<and> isPlaying e' = isPlaying e \<and> audioCtx e' = audioCtx e"
  by (simp split: option.splits audio_node.splits)

lemma handleScriptMessage_record_empty:
  "scriptRecordBuffer e = [] \<Longrightarrow>
   handleScriptMessage (Suc d) eng (Msg_record on) e = Some (e\<lparr>scriptRecording := on\<rparr>)"
  by (simp add: Let_def)

lemma startAudio_total:
  "\<exists>e'. startAudio (Suc (Suc d)) eng e = Some e' \<and> formula e' = formula e"
proof (cases "audioCtx e")
  case None
  then show ?thesis by (simp add: startAudio_def)
next
  case (Some sr)
  show ?thesis
  proof (cases "isPlaying e")
    case True
    then show ?thesis using Some by (simp add: startAudio_def)
  next
    case False
    show ?thesis
    proof (cases "usingWorklet e")
      case True
      then show ?thesis using Some False by (simp add: startAudio_def)
    next
      case w: False
      define c where "c = createScriptProcessor eng sr (preferredChunkSize e) e"
      from handleScriptMessage_setFormula [of "Suc d" eng "formula e" c]
      obtain e1 where e1: "handleScriptMessage (Suc (Suc d)) eng (Msg_setFormula (formula e)) c = Some e1"
        "formula e1 = formula c" "scriptRecordBuffer e1 = scriptRecordBuffer c"
        by blast
      have b: "scriptRecordBuffer e1 = []" using e1(3) by (simp add: c_def createScriptProcessor_fields)
      have f: "formula e1 = formula e" using e1(2) by (simp add: c_def createScriptProcessor_fields)
      show ?thesis
        using Some False w e1(1) f handleScriptMessage_record_empty [OF b, of "Suc d" eng]
        by (simp add: startAudio_def c_def [symmetric])
    qed
  qed
qed

lemma ensureAudioPrepared_formula: "formula (snd (ensureAudioPrepared env e)) = formula e"
  by (simp add: ensureAudioPrepared_def Let_def)

lemma startFormula_accepted:
  assumes "F \<noteq> []" "sanityCheckFormula (trim F) = None"
  shows "\<exists>e'. startFormula (Suc (Suc d)) env eng F e = Some e' \<and> formula e' = trim F"
proof -
  define e2 where "e2 = e\<lparr>formula := trim F\<rparr>"
  obtain ok e3 where p: "ensureAudioPrepared env e2 = (ok, e3)" by (cases "ensureAudioPrepared env e2")
  have f3: "formula e3 = trim F"
    using ensureAudioPrepared_formula [of env e2] p by (simp add: e2_def)
  from postToNode_setFormula [of d eng "formula e3" e3]
  obtain e4 where e4: "postToNode (Suc (Suc d)) eng (Msg_setFormula (formula e3)) e3 = Some e4"
    "formula e4 = formula e3" by blast
  from startAudio_total [of d eng e4]
  obtain e5 where e5: "startAudio (Suc (Suc d)) eng e4 = Some e5" "formula e5 = formula e4" by blast
  have f2: "formula e2 = trim F" by (simp add: e2_def)
  show ?thesis
    using assms p f3 e4 e5
    by (simp add: startFormula_def e2_def [symmetric] Let_def f2 del: postToNode.simps)
qed

text \<open>
  Claim C5, amended. For every formula text that contains a forbidden substring, or whose
  length after trimming the white space at both ends exceeds 2000 characters,
  \<open>startFormula\<close> replaces the text by the fallback formula before anything is
  compiled: the call is the same as the call with the fallback formula itself on a state
  that already holds the warning, for every engine, browser and state, so the original
  text reaches no compile; and a call depth of 2 is enough for it to return, with the
  fallback formula as \<open>this.formula\<close>. The check runs on the trimmed text, and the
  forbidden substrings contain no white space, so trimming cannot remove one.
\<close>
theorem start_replaces_rejected_formula:
  assumes "(\<exists>f \<in> set forbidden. js_includes FORMULA f) \<or> length (trim FORMULA) > 2000"
  shows "(\<exists>message.
            startFormula depth env eng FORMULA e =
              startFormula depth env eng ERROR_FALLBACK_FORMULA
                (e\<lparr>notices := notices e @
                     [Console_warn (''Formula rejected by sanity check: '' @ message)]\<rparr>))
         \<and> (\<exists>e'. startFormula (Suc (Suc d)) env eng FORMULA e = Some e' \<and>
                   formula e' = ERROR_FALLBACK_FORMULA)"
proof -
  have rej: "sanityCheckFormula (trim FORMULA) \<noteq> None"
    using assms sublist_trim unfolding sanityCheckFormula_rejects js_includes_def by blast
  then obtain message where m: "sanityCheckFormula (trim FORMULA) = Some message" by blast
  have ne: "FORMULA \<noteq> []"
  proof
    assume "FORMULA = []"
    then have "sanityCheckFormula (trim FORMULA) = None"
      by (simp add: trim_def sanityCheckFormula_def forbidden_def js_includes_def)
    with rej show False by simp
  qed
  have fb: "ERROR_FALLBACK_FORMULA \<noteq> []" by (simp add: ERROR_FALLBACK_FORMULA_def)
  have eq: "startFormula k env eng FORMULA e =
      startFormula k env eng ERROR_FALLBACK_FORMULA
        (e\<lparr>notices := notices e @
             [Console_warn (''Formula rejected by sanity check: '' @ message)]\<rparr>)" for k
    using ne fb m by (simp add: startFormula_def trim_fallback sanity_fallback)
  from startFormula_accepted [OF fb, of d env eng] trim_fallback sanity_fallback
  have "\<exists>e'. startFormula (Suc (Suc d)) env eng ERROR_FALLBACK_FORMULA
        (e\<lparr>notices := notices e @
             [Console_warn (''Formula rejected by sanity check: '' @ message)]\<rparr>) = Some e' \<and>
      formula e' = ERROR_FALLBACK_FORMULA"
    by simp
  then show ?thesis using eq by metis
qed

text \<open>\<open>start_replaces_rejected_formula\<close> at the formula \<open>while(1)\<close>.\<close>

theorem start_replaces_rejected_formula_witness:
  "(\<exists>message.
      startFormula 2 script_only_env sample_engine ''while(1)'' BytebeatExtension =
        startFormula 2 script_only_env sample_engine ERROR_FALLBACK_FORMULA
          (BytebeatExtension\<lparr>notices := notices BytebeatExtension @
               [Console_warn (''Formula rejected by sanity check: '' @ message)]\<rparr>))
   \<and> (\<exists>e'. startFormula (Suc (Suc 0)) script_only_env sample_engine ''while(1)''
                BytebeatExtension = Some e' \<and>
             formula e' = ERROR_FALLBACK_FORMULA)"
proof -
  have "\<exists>f \<in> set forbidden. js_includes ''while(1)'' f"
    by (simp add: forbidden_def js_includes_def)
  then show ?thesis
    using start_replaces_rejected_formula
      [of "''while(1)''" 2 script_only_env sample_engine BytebeatExtension 0]
    by blast
qed

lemma trim_padded: "trim (CHR ''t'' # replicate n (CHR '' '')) = ''t''"
proof -
  have ws: "is_whitespace (CHR '' '')" "\<not> is_whitespace (CHR ''t'')"
    by (simp_all add: is_whitespace_def)
  have a: "dropWhile is_whitespace (CHR ''t'' # replicate n (CHR '' '')) =
      CHR ''t'' # replicate n (CHR '' '')"
    using ws by simp
  have b: "dropWhile is_whitespace (replicate n (CHR '' '') @ [CHR ''t'']) = [CHR ''t'']"
    using ws by (subst dropWhile_append2) auto
  have "rev (CHR ''t'' # replicate n (CHR '' '')) = replicate n (CHR '' '') @ [CHR ''t'']"
    by simp
  then show ?thesis unfolding trim_def a by (simp only: b) simp
qed

lemma sanity_t: "sanityCheckFormula ''t'' = None"
  by (simp add: sanityCheckFormula_def forbidden_def js_includes_def)

text \<open>
  Claim C5 as stated, for every text longer than 2000 characters, fails at the text
  \<open>t\<close> followed by 2000 spaces: it has 2001 characters, and \<open>startFormula\<close> keeps
  the trimmed text \<open>t\<close> as the formula.
\<close>

theorem start_padded_formula_counterexample:
  "2000 < length (CHR ''t'' # replicate 2000 (CHR '' ''))
   \<and> map_option formula
        (startFormula 2 script_only_env sample_engine (CHR ''t'' # replicate 2000 (CHR '' ''))
           BytebeatExtension) = Some ''t''"
proof -
  from startFormula_accepted [of "CHR ''t'' # replicate 2000 (CHR '' '')" 0 script_only_env
      sample_engine BytebeatExtension]
  obtain e' where "startFormula (Suc (Suc 0)) script_only_env sample_engine
      (CHR ''t'' # replicate 2000 (CHR '' '')) BytebeatExtension = Some e'" "formula e' = ''t''"
    unfolding trim_padded using sanity_t by auto
  then show ?thesis by (simp add: numeral_2_eq_2)
qed

section \<open>What the recording holds\<close>

lemma chunk_samples_append:
  "chunk_samples (a @ b) = chunk_samples a @ chunk_samples b"
  by (induction a rule: chunk_samples.induct) simp_all

lemma w_evaluated_fields:
  "w_recording (w_evaluated eng sParam i w) = w_recording w"
  "w_recordBuffer (w_evaluated eng sParam i w) = w_recordBuffer w"
  "w_recordChunkSize (w_evaluated eng sParam i w) = w_recordChunkSize w"
  "w_t (w_evaluated eng sParam i w) = w_t w"
  "chunk_samples (w_posted (w_evaluated eng sParam i w)) = chunk_samples (w_posted w)"
  "\<exists>errs. w_posted (w_evaluated eng sParam i w) = w_posted w @ errs \<and>
          (\<forall>c. Msg_recordChunk c \<notin> set errs)"
  by (auto simp: w_evaluated_def w_catch_fallback_fields chunk_samples_append
      w_catch_fallback_def split: option.splits)

lemma process_sample_unfold:
  "process_sample eng volParam sParam inc i w =
     (let y = quantize (w_raw sParam i w) (param_at volParam i);
          w1 = w_evaluated eng sParam i w;
          w2 = (if w_recording w1
                then (let w' = w1\<lparr>w_recordBuffer := w_recordBuffer w1 @ [y]\<rparr>
                      in if length (w_recordBuffer w') \<ge> w_recordChunkSize w'
                         then flushRecord w' else w')
                else w1)
      in (y, w2\<lparr>w_t := fadd (w_t w2) inc\<rparr>))"
  by (simp add: process_sample_def w_raw_def w_evaluated_def Let_def split: option.splits)



lemma process_sample_buffer:
  assumes "length (w_recordBuffer w) < w_recordChunkSize w"
  shows "length (w_recordBuffer (snd (process_sample eng volParam sParam inc i w)))
           < w_recordChunkSize w"
    and "\<exists>new. w_posted (snd (process_sample eng volParam sParam inc i w)) = w_posted w @ new \<and>
           (\<forall>c. Msg_recordChunk c \<in> set new \<longrightarrow> length c = w_recordChunkSize w)"
proof -
  show "length (w_recordBuffer (snd (process_sample eng volParam sParam inc i w)))
           < w_recordChunkSize w"
    using assms
    by (auto simp add: process_sample_unfold Let_def w_evaluated_fields flushRecord_def)
  from w_evaluated_fields(6) [of eng sParam i w]
  obtain errs where e: "w_posted (w_evaluated eng sParam i w) = w_posted w @ errs"
    "\<forall>c. Msg_recordChunk c \<notin> set errs" by blast
  show "\<exists>new. w_posted (snd (process_sample eng volParam sParam inc i w)) = w_posted w @ new \<and>
           (\<forall>c. Msg_recordChunk c \<in> set new \<longrightarrow> length c = w_recordChunkSize w)"
    using assms e
    by (auto simp add: process_sample_unfold Let_def w_evaluated_fields flushRecord_def)
qed

lemma process_loop_buffer:
  assumes "length (w_recordBuffer w) < w_recordChunkSize w"
  shows "length (w_recordBuffer (snd (process_loop eng volParam sParam inc i n w)))
           < w_recordChunkSize w \<and>
         w_recordChunkSize (snd (process_loop eng volParam sParam inc i n w)) = w_recordChunkSize w \<and>
         (\<exists>new. w_posted (snd (process_loop eng volParam sParam inc i n w)) = w_posted w @ new \<and>
           (\<forall>c. Msg_recordChunk c \<in> set new \<longrightarrow> length c = w_recordChunkSize w))"
  using assms
proof (induction n arbitrary: i w)
  case 0
  then show ?case by simp
next
  case (Suc n)
  let ?w' = "snd (process_sample eng volParam sParam inc i w)"
  have c: "w_recordChunkSize ?w' = w_recordChunkSize w" by (rule process_sample_chunkSize)
  have b: "length (w_recordBuffer ?w') < w_recordChunkSize ?w'"
    using process_sample_buffer(1) [OF Suc.prems] c by simp
  from process_sample_buffer(2) [OF Suc.prems, of eng volParam sParam inc i]
  obtain new1 where n1: "w_posted ?w' = w_posted w @ new1"
    "\<forall>c. Msg_recordChunk c \<in> set new1 \<longrightarrow> length c = w_recordChunkSize w" by blast
  from Suc.IH [OF b, of "Suc i"]
  obtain new2 where l: "length (w_recordBuffer (snd (process_loop eng volParam sParam inc (Suc i) n ?w')))
           < w_recordChunkSize w"
    "w_recordChunkSize (snd (process_loop eng volParam sParam inc (Suc i) n ?w')) = w_recordChunkSize w"
    and n2: "w_posted (snd (process_loop eng volParam sParam inc (Suc i) n ?w')) = w_posted ?w' @ new2"
    "\<forall>c. Msg_recordChunk c \<in> set new2 \<longrightarrow> length c = w_recordChunkSize w"
    unfolding c by blast
  have "w_posted (snd (process_loop eng volParam sParam inc (Suc i) n ?w')) = w_posted w @ (new1 @ new2)"
    using n1 n2 by simp
  moreover have "\<forall>c. Msg_recordChunk c \<in> set (new1 @ new2) \<longrightarrow> length c = w_recordChunkSize w"
    using n1 n2 by auto
  ultimately show ?case
    using l unfolding process_loop_Suc snd_conv by blast
qed

lemma process_loop_buffer_grows:
  assumes "w_recording w" "length (w_recordBuffer w) + n < w_recordChunkSize w"
  shows "length (w_recordBuffer (snd (process_loop eng volParam sParam inc i n w))) =
           length (w_recordBuffer w) + n"
  using assms
proof (induction n arbitrary: i w)
  case 0
  then show ?case by simp
next
  case (Suc n)
  let ?w' = "snd (process_sample eng volParam sParam inc i w)"
  have r: "w_recording ?w'" using Suc.prems by (simp add: process_sample_recording)
  have c: "w_recordChunkSize ?w' = w_recordChunkSize w" by (rule process_sample_chunkSize)
  have b: "length (w_recordBuffer ?w') = Suc (length (w_recordBuffer w))"
    using Suc.prems
    by (simp add: process_sample_unfold Let_def w_evaluated_fields flushRecord_def)
  show ?case
    using Suc.IH [OF r, of "Suc i"] Suc.prems b c
    by (simp add: process_loop_Suc del: process_loop.simps(2))
qed




lemma processFunc_loop_buffer:
  assumes "processFunc_loop d eng logicalS inc n e = Some (ys, e')"
    "length (scriptRecordBuffer e) < scriptRecordChunkSize e"
  shows "length (scriptRecordBuffer e') < scriptRecordChunkSize e' \<and>
         scriptRecordChunkSize e' = scriptRecordChunkSize e"
  using assms
proof (induction n arbitrary: e ys)
  case 0
  then show ?case by simp
next
  case (Suc n)
  from Suc.prems(1) obtain y e1 where s: "script_sample d eng logicalS inc e = Some (y, e1)"
    by (auto split: option.splits)
  from Suc.prems(1) obtain ys' where l: "processFunc_loop d eng logicalS inc n e1 = Some (ys', e')"
    by (auto simp: s split: option.splits)
  have c: "scriptRecordChunkSize e1 = scriptRecordChunkSize e" by (rule script_sample_result(4) [OF s])
  have "length (scriptRecordBuffer e1) < scriptRecordChunkSize e1"
    using script_sample_result(9) [OF s] Suc.prems(2) c by auto
  from Suc.IH [OF l this] show ?case using c by simp
qed



lemma fallback_function_0: "fallback_function 0 s T = Some 0"
  by (simp add: fallback_function_def bitor32_def)

lemma BytebeatProcessor_sample:
  "BytebeatProcessor sample_engine =
     \<lparr>w_t = 0, w_compiled = Some fallback_function, w_recording = False, w_recordBuffer = [],
      w_recordChunkSize = 4096, w_posted = []\<rparr>"
  by (simp add: BytebeatProcessor_def setFormula_def sample_engine_fallback fallback_function_0)




section \<open>The bounds of a recording\<close>

lemma worklet_limit_stop:
  assumes "usingWorklet e" "node e = Some (AudioWorkletNode port)"
    "recordMaxSamples e < length (recordedSamples e @ c)"
  shows "handleNodeMessage (Suc (Suc d)) eng (Msg_recordChunk c) e =
     Some (e\<lparr>recordedSamples := [], recording := False,
             node := Some (AudioWorkletNode (port @ [Msg_record False])),
             notices := notices e @
               [Alert ''Recording stopped - reached maximum allowed length.'']\<rparr>)"
  using assms by (simp add: Let_def)

text \<open>
  On the ScriptProcessor backend the chunk that exceeds the maximum is still in
  \<open>_scriptRecordBuffer\<close> while \<open>_handleNodeMessage\<close> runs (line 478 empties the
  buffer after the call), so the \<open>record off\<close> of the forced stop delivers it a second
  time: the accumulated samples are cleared and then hold that chunk.
\<close>

lemma script_limit_reappends_chunk:
  assumes "\<not> usingWorklet e" "node e = Some nd" "scriptRecordBuffer e = c" "c \<noteq> []"
    "length c \<le> recordMaxSamples e" "recordMaxSamples e < length (recordedSamples e @ c)"
  shows "handleNodeMessage (Suc (Suc (Suc (Suc d)))) eng (Msg_recordChunk c) e =
     Some (e\<lparr>recordedSamples := c, recording := False, scriptRecording := False,
             scriptRecordBuffer := [],
             notices := notices e @
               [Alert ''Recording stopped - reached maximum allowed length.'']\<rparr>)"
  using assms by (simp add: Let_def)

lemma process_loop_recording:
  "w_recording (snd (process_loop eng volParam sParam inc i n w)) = w_recording w"
  by (induction n arbitrary: i w)
     (simp_all add: process_loop_Suc process_sample_recording del: process_loop.simps(2))

lemma recordMaxSamples_initial: "recordMaxSamples BytebeatExtension = 44100 * 60 * 10"
  by (simp add: BytebeatExtension_def)

text \<open>
  Claim C7, amended. While the chunk size is not changed, a buffer that is shorter than
  the chunk size stays shorter after every block, and every chunk the worklet loop
  flushes has exactly the chunk size; the ScriptProcessor loop keeps its buffer shorter
  than the chunk size as well. After every handled chunk the accumulated samples number
  at most \<open>recordMaxSamples\<close>, which the constructor sets to \<open>44100 * 60 * 10\<close>, and
  \<open>isPlaying\<close> is as before. When a chunk takes the accumulated samples over the
  maximum on the worklet backend, the handler sets \<open>recording\<close> to false, empties the
  accumulated samples, posts \<open>record off\<close> to the node and raises an alert.
\<close>
theorem recording_bounds:
  "(length (w_recordBuffer w) < w_recordChunkSize w \<longrightarrow>
      length (w_recordBuffer (snd (process eng P (Some n) volParam sParam w))) < w_recordChunkSize w \<and>
      w_recordChunkSize (snd (process eng P (Some n) volParam sParam w)) = w_recordChunkSize w \<and>
      (\<exists>new. w_posted (snd (process eng P (Some n) volParam sParam w)) = w_posted w @ new \<and>
         (\<forall>c. Msg_recordChunk c \<in> set new \<longrightarrow> length c = w_recordChunkSize w)))
   \<and> (4 \<le> d \<longrightarrow> script_ok e \<longrightarrow> length (scriptRecordBuffer e) < scriptRecordChunkSize e \<longrightarrow>
        (\<exists>ys e'. processFunc d eng n e = Some (ys, e') \<and>
           length (scriptRecordBuffer e') < scriptRecordChunkSize e' \<and>
           scriptRecordChunkSize e' = scriptRecordChunkSize e))
   \<and> (4 \<le> d \<longrightarrow> length (scriptRecordBuffer e) \<le> recordMaxSamples e \<longrightarrow>
        (\<exists>e'. handleNodeMessage d eng (Msg_recordChunk c) e = Some e' \<and>
           length (recordedSamples e') \<le> recordMaxSamples e' \<and>
           recordMaxSamples e' = recordMaxSamples e \<and> isPlaying e' = isPlaying e))
   \<and> recordMaxSamples BytebeatExtension = 44100 * 60 * 10
   \<and> (usingWorklet e \<longrightarrow> node e = Some (AudioWorkletNode port) \<longrightarrow>
        recordMaxSamples e < length (recordedSamples e @ c) \<longrightarrow>
        handleNodeMessage (Suc (Suc d)) eng (Msg_recordChunk c) e =
          Some (e\<lparr>recordedSamples := [], recording := False,
                  node := Some (AudioWorkletNode (port @ [Msg_record False])),
                  notices := notices e @
                    [Alert ''Recording stopped - reached maximum allowed length.'']\<rparr>))"
proof (intro conjI impI)
  assume "length (w_recordBuffer w) < w_recordChunkSize w"
  from process_loop_buffer [OF this, of eng volParam sParam "fdiv (sParam ! 0) P" 0 n]
  show "length (w_recordBuffer (snd (process eng P (Some n) volParam sParam w))) < w_recordChunkSize w"
    and "w_recordChunkSize (snd (process eng P (Some n) volParam sParam w)) = w_recordChunkSize w"
    and "\<exists>new. w_posted (snd (process eng P (Some n) volParam sParam w)) = w_posted w @ new \<and>
         (\<forall>c. Msg_recordChunk c \<in> set new \<longrightarrow> length c = w_recordChunkSize w)"
    by (simp_all add: process_Some)
next
  assume d: "4 \<le> d" and ok: "script_ok e"
    and b: "length (scriptRecordBuffer e) < scriptRecordChunkSize e"
  from processFunc_loop_total [OF d ok]
  obtain ys e' where l: "processFunc d eng n e = Some (ys, e')"
    unfolding processFunc_def Let_def by blast
  then have "length (scriptRecordBuffer e') < scriptRecordChunkSize e' \<and>
         scriptRecordChunkSize e' = scriptRecordChunkSize e"
    unfolding processFunc_def Let_def using b by (rule processFunc_loop_buffer)
  then show "\<exists>ys e'. processFunc d eng n e = Some (ys, e') \<and>
           length (scriptRecordBuffer e') < scriptRecordChunkSize e' \<and>
           scriptRecordChunkSize e' = scriptRecordChunkSize e"
    using l by blast
next
  assume d: "4 \<le> d" and b: "length (scriptRecordBuffer e) \<le> recordMaxSamples e"
  from handleNodeMessage_recordChunk_total [OF d b]
  obtain e' where h: "handleNodeMessage d eng (Msg_recordChunk c) e = Some e'" by blast
  have "length (recordedSamples e') \<le> recordMaxSamples e'"
    using h by (rule handleNodeMessage_recordChunk_bound)
  moreover have "recordMaxSamples e' = recordMaxSamples e \<and> isPlaying e' = isPlaying e"
    using handleNodeMessage_recordChunk_frame [OF h] by (simp add: script_frame_def)
  ultimately show "\<exists>e'. handleNodeMessage d eng (Msg_recordChunk c) e = Some e' \<and>
           length (recordedSamples e') \<le> recordMaxSamples e' \<and>
           recordMaxSamples e' = recordMaxSamples e \<and> isPlaying e' = isPlaying e"
    using h by blast
next
  show "recordMaxSamples BytebeatExtension = 44100 * 60 * 10"
    by (rule recordMaxSamples_initial)
next
  assume "usingWorklet e" "node e = Some (AudioWorkletNode port)"
    "recordMaxSamples e < length (recordedSamples e @ c)"
  then show "handleNodeMessage (Suc (Suc d)) eng (Msg_recordChunk c) e =
          Some (e\<lparr>recordedSamples := [], recording := False,
                  node := Some (AudioWorkletNode (port @ [Msg_record False])),
                  notices := notices e @
                    [Alert ''Recording stopped - reached maximum allowed length.'']\<rparr>)"
    by (rule worklet_limit_stop)
qed

text \<open>
  Claim C7 as stated fails when the chunk size is lowered during a recording: after 129
  recorded samples with the initial chunk size of 4096, the message \<open>setChunkSize\<close>
  with size 128 leaves 129 samples in the buffer, more than the chunk size.
\<close>

theorem chunk_size_change_counterexample:
  "w_recording
     (onmessage sample_engine (Msg_setChunkSize 128)
        (snd (process sample_engine 44100 (Some 129) [1] [8000]
                (setRecording True (BytebeatProcessor sample_engine)))))
   \<and> length (w_recordBuffer
        (onmessage sample_engine (Msg_setChunkSize 128)
           (snd (process sample_engine 44100 (Some 129) [1] [8000]
                   (setRecording True (BytebeatProcessor sample_engine)))))) = 129
   \<and> w_recordChunkSize
        (onmessage sample_engine (Msg_setChunkSize 128)
           (snd (process sample_engine 44100 (Some 129) [1] [8000]
                   (setRecording True (BytebeatProcessor sample_engine))))) = 128"
proof -
  define w0 where "w0 = setRecording True (BytebeatProcessor sample_engine)"
  define w1 where "w1 = snd (process sample_engine 44100 (Some 129) [1] [8000] w0)"
  have w0: "w_recording w0" "w_recordBuffer w0 = []" "w_recordChunkSize w0 = 4096"
    by (simp_all add: w0_def BytebeatProcessor_sample setRecording_def)
  have "length (w_recordBuffer w0) + 129 < w_recordChunkSize w0" using w0 by simp
  from process_loop_buffer_grows [OF w0(1) this, of sample_engine "[1]" "[8000]" "fdiv 8000 44100" 0]
  have l: "length (w_recordBuffer w1) = 129"
    by (simp add: w1_def process_Some w0)
  have r: "w_recording w1"
    unfolding w1_def process_Some by (simp add: process_loop_recording w0)
  show ?thesis
    unfolding w0_def [symmetric] w1_def [symmetric]
    using l r by (simp add: onmessage_def)
qed

text \<open>
  \<open>recording_bounds\<close> on the sample states; the last state has accumulated exactly
  the maximum, and one more sample arrives.
\<close>

theorem recording_bounds_witness:
  "length (w_recordBuffer (snd (process sample_engine 44100 (Some 2) [1] [8000] sample_worklet)))
     < 4096
   \<and> (\<exists>ys e'. processFunc 4 sample_engine 2 sample_script = Some (ys, e') \<and>
          length (scriptRecordBuffer e') < scriptRecordChunkSize e')
   \<and> (\<exists>e'. handleNodeMessage 4 sample_engine (Msg_recordChunk [1 / 2]) sample_script = Some e' \<and>
          length (recordedSamples e') \<le> recordMaxSamples e')
   \<and> handleNodeMessage (Suc (Suc 0)) sample_engine (Msg_recordChunk [0]) sample_worklet_ext =
        Some (sample_worklet_ext\<lparr>recordedSamples := [], recording := False,
                node := Some (AudioWorkletNode ([] @ [Msg_record False])),
                notices := notices sample_worklet_ext @
                  [Alert ''Recording stopped - reached maximum allowed length.'']\<rparr>)"
proof -
  have w: "length (w_recordBuffer sample_worklet) < w_recordChunkSize sample_worklet"
    "w_recordChunkSize sample_worklet = 4096"
    by (simp_all add: sample_worklet_def)
  have s: "length (scriptRecordBuffer sample_script) < scriptRecordChunkSize sample_script"
    "length (scriptRecordBuffer sample_script) \<le> recordMaxSamples sample_script"
    by (simp_all add: sample_script_def BytebeatExtension_def)
  have x: "usingWorklet sample_worklet_ext" "node sample_worklet_ext = Some (AudioWorkletNode [])"
    "recordMaxSamples sample_worklet_ext < length (recordedSamples sample_worklet_ext @ [0])"
    by (simp_all add: sample_worklet_ext_def BytebeatExtension_def)
  from recording_bounds [of sample_worklet sample_engine 44100 2 "[1]" "[8000]" 4 sample_script
      "[1 / 2]" "[]"]
  have a: "length (w_recordBuffer (snd (process sample_engine 44100 (Some 2) [1] [8000] sample_worklet)))
     < 4096"
    and b: "\<exists>ys e'. processFunc 4 sample_engine 2 sample_script = Some (ys, e') \<and>
          length (scriptRecordBuffer e') < scriptRecordChunkSize e' \<and>
          scriptRecordChunkSize e' = scriptRecordChunkSize sample_script"
    and c: "\<exists>e'. handleNodeMessage 4 sample_engine (Msg_recordChunk [1 / 2]) sample_script = Some e' \<and>
          length (recordedSamples e') \<le> recordMaxSamples e' \<and>
          recordMaxSamples e' = recordMaxSamples sample_script \<and>
          isPlaying e' = isPlaying sample_script"
    using w s sample_script_ok by simp_all
  from recording_bounds [of sample_worklet sample_engine 44100 2 "[1]" "[8000]" 0 sample_worklet_ext
      "[0]" "[]"]
  have d: "handleNodeMessage (Suc (Suc 0)) sample_engine (Msg_recordChunk [0]) sample_worklet_ext =
        Some (sample_worklet_ext\<lparr>recordedSamples := [], recording := False,
                node := Some (AudioWorkletNode ([] @ [Msg_record False])),
                notices := notices sample_worklet_ext @
                  [Alert ''Recording stopped - reached maximum allowed length.'']\<rparr>)"
    using x by blast
  from a b c d show ?thesis by blast
qed

end
